theory Spec2Isabelle
  imports Main "HOL-Library.Multiset" "HOL-Library.List_Lexorder" "HOL-Library.Char_ord"
begin

section \<open>Data model of feedmixer.py\<close>

text \<open>
  Exceptions are values. \<open>RequestException\<close> stands for whatever \<open>sess.get\<close> or
  \<open>raise_for_status\<close> raises (a transport failure), \<open>ParseError\<close> is the module's own
  class, \<open>AttributeError\<close> and \<open>KeyError\<close> come from attribute and item access on
  the parser's dictionaries, \<open>ValueError\<close> from the thread pool and from \<open>datetime\<close>.
\<close>

datatype exn =
    RequestException string
  | ParseError string
  | AttributeError string
  | KeyError string
  | ValueError string

type_synonym url = string

text \<open>
  What the parser hands over. Every field of an entry is optional: \<open>None\<close> is
  "the key is absent" (\<open>e.get(k)\<close> answers \<open>None\<close>, \<open>k in e\<close> is false).
\<close>

record author_t =
  au_name :: "string option"
  au_email :: "string option"
  au_href :: "string option"

record content_t =
  c_value :: "string option"

record tag_t =
  tag_term :: "string option"

record enclosure_t =
  enc_href :: "string option"
  enc_length :: "string option"
  enc_type :: "string option"

record time_struct =
  tm_year :: int
  tm_mon :: int
  tm_mday :: int
  tm_hour :: int
  tm_min :: int
  tm_sec :: int

record entry =
  e_title :: "string option"
  e_link :: "string option"
  e_summary :: "string option"
  e_content :: "content_t list option"
  e_author_detail :: "author_t option"
  e_feed_link :: "string option"
  e_feed_title :: "string option"
  e_published :: "string option"
  e_updated :: "string option"
  e_published_parsed :: "time_struct option"
  e_updated_parsed :: "time_struct option"
  e_comments :: "string option"
  e_id :: "string option"
  e_license :: "string option"
  e_tags :: "tag_t list option"
  e_enclosures :: "enclosure_t list option"

record feed_t =
  fd_link :: "string option"
  fd_title :: "string option"
  fd_author_detail :: "author_t option"

record parsed_feed =
  entries :: "entry list"
  bozo :: bool
  bozo_exception :: "string option"
  feed :: feed_t

text \<open>The values of the dictionaries that \<open>extract_meta\<close> builds, in insertion order.\<close>

datatype mval =
    MNone
  | MStr string
  | MList "mval list"
  | MDateTime int int int int int int
  | MEnclosure string string string

type_synonym metadata = "(string \<times> mval) list"

text \<open>
  The surroundings of one pipeline run: the outcome of \<open>sess.get(url)\<close> followed by
  \<open>raise_for_status()\<close> (the response text, or the exception raised), the parser
  \<open>feedparser.parse\<close>, the moment at which the future submitted at each position
  completes (\<open>as_completed\<close> yields the futures by it), and the two functions of the
  rendering library used here.
\<close>

datatype gen_cls = Atom1Feed | Rss201rev2Feed | JSONFeed

record syndication_feed =
  g_cls :: gen_cls
  g_title :: string
  g_link :: string
  g_description :: string
  g_items :: "metadata list"

record env =
  sess_get :: "url \<Rightarrow> exn + string"
  parse :: "string \<Rightarrow> parsed_feed"
  completion_time :: "nat \<Rightarrow> nat"
  iri_to_uri :: "string \<Rightarrow> string"
  writeString :: "syndication_feed \<Rightarrow> string"

text \<open>
  The state of the process outside the \<open>FeedMixer\<close> object: the module-level
  \<open>lru_cache\<close> of \<open>cache_parser\<close> (most recently used first; the cached object is
  shared with whoever asked for it) and the GET requests issued so far.
\<close>

type_synonym parser_cache = "(string \<times> parsed_feed) list"

record world =
  lru :: parser_cache
  sent :: "url list"

record FeedMixer =
  title :: string
  link :: string
  desc :: string
  max_feeds :: int
  p_feeds :: "url list"
  p_num_keep :: int
  prefer_summary :: bool
  max_threads :: int
  p_mixed_entries :: "metadata list"
  p_error_urls :: "url \<rightharpoonup> exn"

record loop_state =
  l_cache :: parser_cache
  l_parsed_entries :: "entry list"
  l_error_urls :: "url \<rightharpoonup> exn"

section \<open>The parse cache\<close>

definition maxsize :: nat where
  "maxsize = 128"

text \<open>\<open>@functools.lru_cache(maxsize=128) def cache_parser(text)\<close>\<close>

definition cache_parser ::
  "(string \<Rightarrow> parsed_feed) \<Rightarrow> string \<Rightarrow> parser_cache \<Rightarrow> parsed_feed \<times> parser_cache" where
  "cache_parser prs text c =
     (case map_of c text of
        Some f \<Rightarrow> (f, (text, f) # filter (\<lambda>kv. fst kv \<noteq> text) c)
      | None \<Rightarrow> (let f = prs text in (f, take maxsize ((text, f) # c))))"

text \<open>In-place mutation of the object cached under \<open>text\<close>.\<close>

definition mutate_cached :: "string \<Rightarrow> parsed_feed \<Rightarrow> parser_cache \<Rightarrow> parser_cache" where
  "mutate_cached text f' c = map (\<lambda>kv. if fst kv = text then (text, f') else kv) c"

section \<open>Construction, properties and setters\<close>

text \<open>Python's \<open>xs[:n]\<close> for an integer \<open>n\<close>.\<close>

definition py_slice_to :: "int \<Rightarrow> 'a list \<Rightarrow> 'a list" where
  "py_slice_to n xs = (if 0 \<le> n then take (nat n) xs else take (length xs - nat (- n)) xs)"

definition FeedMixer_init ::
  "string \<Rightarrow> string \<Rightarrow> string \<Rightarrow> url list \<Rightarrow> int \<Rightarrow> bool \<Rightarrow> int \<Rightarrow> int \<Rightarrow> FeedMixer" where
  "FeedMixer_init ttl lnk dsc fds nk ps mt mf =
     \<lparr>title = ttl, link = lnk, desc = dsc, max_feeds = mf,
      p_feeds = py_slice_to mf fds, p_num_keep = nk, prefer_summary = ps,
      max_threads = mt, p_mixed_entries = [], p_error_urls = Map.empty\<rparr>"

definition num_keep :: "FeedMixer \<Rightarrow> int" where
  "num_keep fm = p_num_keep fm"

definition feeds :: "FeedMixer \<Rightarrow> url list" where
  "feeds fm = p_feeds fm"

definition set_feeds :: "url list \<Rightarrow> FeedMixer \<Rightarrow> FeedMixer" where
  "set_feeds v fm = fm\<lparr>p_feeds := py_slice_to (max_feeds fm) v, p_mixed_entries := []\<rparr>"

definition set_num_keep :: "int \<Rightarrow> FeedMixer \<Rightarrow> FeedMixer" where
  "set_num_keep v fm = (let fm1 = fm\<lparr>p_num_keep := v\<rparr> in set_feeds (p_feeds fm1) fm1)"

definition error_urls :: "FeedMixer \<Rightarrow> (url \<rightharpoonup> exn)" where
  "error_urls fm = p_error_urls fm"

section \<open>extract_meta\<close>

definition opt_str :: "string option \<Rightarrow> mval" where
  "opt_str x = (case x of None \<Rightarrow> MNone | Some s \<Rightarrow> MStr s)"

fun truthy :: "mval \<Rightarrow> bool" where
  "truthy MNone = False"
| "truthy (MStr s) = (s \<noteq> [])"
| "truthy (MList xs) = (xs \<noteq> [])"
| "truthy (MDateTime y m d hh mm ss) = True"
| "truthy (MEnclosure u l t) = True"

definition py_or :: "mval \<Rightarrow> mval \<Rightarrow> mval" where
  "py_or a b = (if truthy a then a else b)"

text \<open>\<open>content = e.get('content'); if content: content = content[0].get('value')\<close>\<close>

definition first_content :: "content_t list option \<Rightarrow> mval" where
  "first_content c =
     (case c of None \<Rightarrow> MNone | Some [] \<Rightarrow> MList [] | Some (b # bs) \<Rightarrow> opt_str (c_value b))"

definition ebind :: "exn + 'a \<Rightarrow> ('a \<Rightarrow> exn + 'b) \<Rightarrow> exn + 'b" where
  "ebind m f = (case m of Inl x \<Rightarrow> Inl x | Inr v \<Rightarrow> f v)"

text \<open>\<open>datetime.datetime(y, m, d, hh, mm, ss)\<close> raises \<open>ValueError\<close> out of range.\<close>

definition is_leap :: "int \<Rightarrow> bool" where
  "is_leap y = (y mod 4 = 0 \<and> (y mod 100 \<noteq> 0 \<or> y mod 400 = 0))"

definition days_in_month :: "int \<Rightarrow> int \<Rightarrow> int" where
  "days_in_month y m =
     (if m = 2 then (if is_leap y then 29 else 28)
      else if m = 4 \<or> m = 6 \<or> m = 9 \<or> m = 11 then 30 else 31)"

definition datetime :: "int \<Rightarrow> int \<Rightarrow> int \<Rightarrow> int \<Rightarrow> int \<Rightarrow> int \<Rightarrow> exn + mval" where
  "datetime y m d hh mm ss =
     (if y < 1 \<or> 9999 < y then Inl (ValueError ''year is out of range'')
      else if m < 1 \<or> 12 < m then Inl (ValueError ''month must be in 1..12'')
      else if d < 1 \<or> days_in_month y m < d then Inl (ValueError ''day is out of range for month'')
      else if hh < 0 \<or> 23 < hh then Inl (ValueError ''hour must be in 0..23'')
      else if mm < 0 \<or> 59 < mm then Inl (ValueError ''minute must be in 0..59'')
      else if ss < 0 \<or> 59 < ss then Inl (ValueError ''second must be in 0..59'')
      else Inr (MDateTime y m d hh mm ss))"

text \<open>
  \<open>tp = e.get(k); if tp: metadata[name] = datetime.datetime(*tp[:5] + (min(tp[5], 59),))\<close>
\<close>

definition opt_datetime :: "string \<Rightarrow> time_struct option \<Rightarrow> exn + metadata" where
  "opt_datetime nm tp =
     (case tp of
        None \<Rightarrow> Inr []
      | Some t \<Rightarrow>
          ebind (datetime (tm_year t) (tm_mon t) (tm_mday t) (tm_hour t) (tm_min t)
                   (min (tm_sec t) 59))
            (\<lambda>v. Inr [(nm, v)]))"

text \<open>\<open>feedgenerator.Enclosure(enc.href, enc.length, enc.type)\<close>; the constructor stores
  \<open>iri_to_uri(url)\<close>. Attribute access on a missing key raises \<open>AttributeError\<close>.\<close>

definition mk_enclosure :: "(string \<Rightarrow> string) \<Rightarrow> enclosure_t \<Rightarrow> exn + mval" where
  "mk_enclosure iri enc =
     (case enc_href enc of
        None \<Rightarrow> Inl (AttributeError ''href'')
      | Some h \<Rightarrow>
          (case enc_length enc of
             None \<Rightarrow> Inl (AttributeError ''length'')
           | Some l \<Rightarrow>
               (case enc_type enc of
                  None \<Rightarrow> Inl (AttributeError ''type'')
                | Some t \<Rightarrow> Inr (MEnclosure (iri h) l t))))"

fun mk_enclosures :: "(string \<Rightarrow> string) \<Rightarrow> enclosure_t list \<Rightarrow> exn + mval list" where
  "mk_enclosures iri [] = Inr []"
| "mk_enclosures iri (enc # encs) =
     ebind (mk_enclosure iri enc) (\<lambda>v. ebind (mk_enclosures iri encs) (\<lambda>vs. Inr (v # vs)))"

text \<open>The body of the loop of \<open>extract_meta\<close>, for one entry.\<close>

definition extract_one :: "(string \<Rightarrow> string) \<Rightarrow> bool \<Rightarrow> entry \<Rightarrow> exn + metadata" where
  "extract_one iri ps e =
     (let summary = opt_str (e_summary e);
          content = first_content (e_content e);
          description = (if ps then py_or summary content else py_or content summary);
          m1 = [(''title'', MStr (case e_title e of None \<Rightarrow> [] | Some s \<Rightarrow> s)),
                (''link'', MStr (case e_link e of None \<Rightarrow> [] | Some s \<Rightarrow> s)),
                (''description'', description)];
          m2 = (case e_author_detail e of
                  None \<Rightarrow> []
                | Some a \<Rightarrow> [(''author_email'', opt_str (au_email a)),
                             (''author_name'', opt_str (au_name a)),
                             (''author_link'', opt_str (au_href a))])
      in case e_feed_link e of
           None \<Rightarrow> Inl (KeyError ''feed_link'')
         | Some fl \<Rightarrow>
             (case e_feed_title e of
                None \<Rightarrow> Inl (KeyError ''feed_title'')
              | Some ft \<Rightarrow>
                  ebind (opt_datetime ''pubdate'' (e_published_parsed e)) (\<lambda>m4.
                  ebind (opt_datetime ''updateddate'' (e_updated_parsed e)) (\<lambda>m5.
                  let m6 = [(''comments'', opt_str (e_comments e)),
                            (''unique_id'', opt_str (e_id e)),
                            (''item_copyright'', opt_str (e_license e))];
                      m7 = (case e_tags e of
                              None \<Rightarrow> []
                            | Some ts \<Rightarrow>
                                [(''categories'', MList (map (\<lambda>t. opt_str (tag_term t)) ts))])
                  in ebind
                       (case e_enclosures e of
                          None \<Rightarrow> Inr []
                        | Some encs \<Rightarrow>
                            ebind (mk_enclosures iri encs) (\<lambda>enclist.
                              Inr ((''enclosures'', MList enclist) #
                                   (case enclist of [] \<Rightarrow> [] | x # xs \<Rightarrow> [(''enclosure'', x)]))))
                       (\<lambda>m8.
                          Inr (m1 @ m2 @ [(''feed_link'', MStr fl), (''feed_title'', MStr ft)]
                               @ m4 @ m5 @ m6 @ m7 @ m8))))))"

fun extract_meta :: "(string \<Rightarrow> string) \<Rightarrow> entry list \<Rightarrow> bool \<Rightarrow> exn + metadata list" where
  "extract_meta iri [] ps = Inr []"
| "extract_meta iri (e # es) ps =
     ebind (extract_one iri ps e) (\<lambda>m. ebind (extract_meta iri es ps) (\<lambda>ms. Inr (m # ms)))"

section \<open>The fetch pipeline\<close>

text \<open>
  The futures with their URL, in the order in which \<open>as_completed\<close> yields them: by
  completion time, which can put the positions of the list in any order.
\<close>

definition as_completed :: "env \<Rightarrow> url list \<Rightarrow> (url \<times> (exn + string)) list" where
  "as_completed ev urls =
     map (\<lambda>i. (urls ! i, sess_get ev (urls ! i)))
       (sort_key (completion_time ev) [0..<length urls])"

text \<open>\<open>newest = f.entries if self._num_keep < 1 else f.entries[0:self._num_keep]\<close>\<close>

definition newest_of :: "int \<Rightarrow> entry list \<Rightarrow> entry list" where
  "newest_of k es = (if k < 1 then es else take (nat k) es)"

text \<open>
  One pass of \<open>for e in newest\<close>: the entry as the pass leaves it, and the exception
  if \<open>f.feed.link\<close> or \<open>f.feed.title\<close> is missing.
\<close>

definition annotate :: "feed_t \<Rightarrow> entry \<Rightarrow> entry \<times> exn option" where
  "annotate fd e =
     (case fd_link fd of
        None \<Rightarrow> (e, Some (AttributeError ''link''))
      | Some l \<Rightarrow>
          (let e1 = e\<lparr>e_feed_link := Some l\<rparr> in
           case fd_title fd of
             None \<Rightarrow> (e1, Some (AttributeError ''title''))
           | Some t \<Rightarrow>
               (let e2 = e1\<lparr>e_feed_title := Some t\<rparr> in
                (if e_author_detail e2 = None
                 then (case fd_author_detail fd of
                         Some a \<Rightarrow> e2\<lparr>e_author_detail := Some a\<rparr>
                       | None \<Rightarrow> e2)
                 else e2,
                 None))))"

fun annotate_loop :: "feed_t \<Rightarrow> entry list \<Rightarrow> entry list \<times> exn option" where
  "annotate_loop fd [] = ([], None)"
| "annotate_loop fd (e # es) =
     (case annotate fd e of
        (e', Some x) \<Rightarrow> (e' # es, Some x)
      | (e', None) \<Rightarrow> (case annotate_loop fd es of (es', r) \<Rightarrow> (e' # es', r)))"

definition parse_error_of :: "parsed_feed \<Rightarrow> exn" where
  "parse_error_of f =
     ParseError (''Parse error: '' @ (case bozo_exception f of None \<Rightarrow> ''None'' | Some s \<Rightarrow> s))"

text \<open>
  The body of \<open>for future in as_completed(future_to_url)\<close>. The parser always answers
  a dictionary with \<open>entries\<close>, \<open>bozo\<close> and \<open>feed\<close>, so \<open>f is None\<close> is never the
  case. The entries that the inner loop assigns to are those of the object in the cache,
  hence \<open>mutate_cached\<close>; \<open>parsed_entries\<close> holds the same objects, and a later pass
  over them assigns the values they already have.
\<close>

definition handle_completed ::
  "(string \<Rightarrow> parsed_feed) \<Rightarrow> int \<Rightarrow> loop_state \<Rightarrow> url \<times> (exn + string) \<Rightarrow> loop_state" where
  "handle_completed prs k s c =
     (case snd c of
        Inl ex \<Rightarrow> s\<lparr>l_error_urls := (l_error_urls s)(fst c \<mapsto> ex)\<rparr>
      | Inr text \<Rightarrow>
          (let (f, c1) = cache_parser prs text (l_cache s) in
           if length (entries f) = 0 \<and> bozo f
           then s\<lparr>l_cache := c1, l_error_urls := (l_error_urls s)(fst c \<mapsto> parse_error_of f)\<rparr>
           else
             (let old = newest_of k (entries f);
                  (newest, raised) = annotate_loop (feed f) old;
                  f' = f\<lparr>entries := newest @ drop (length old) (entries f)\<rparr>;
                  c2 = mutate_cached text f' c1
              in case raised of
                   Some ex \<Rightarrow> s\<lparr>l_cache := c2, l_error_urls := (l_error_urls s)(fst c \<mapsto> ex)\<rparr>
                 | None \<Rightarrow> s\<lparr>l_cache := c2, l_parsed_entries := l_parsed_entries s @ newest\<rparr>)))"

text \<open>
  \<open>key=lambda e: e.get('published') or e.get('updated') or ""\<close>. The keys are the date
  strings as the feed gives them; they are compared as Python compares strings, character
  by character, a proper prefix before the longer string.
\<close>

definition merge_key :: "entry \<Rightarrow> string" where
  "merge_key e =
     (case e_published e of
        Some p \<Rightarrow> if p \<noteq> [] then p
                  else (case e_updated e of Some u \<Rightarrow> if u \<noteq> [] then u else [] | None \<Rightarrow> [])
      | None \<Rightarrow> (case e_updated e of Some u \<Rightarrow> if u \<noteq> [] then u else [] | None \<Rightarrow> []))"

text \<open>
  \<open>list.sort(key=..., reverse=True)\<close>: the list is reversed, sorted stably in
  ascending order of the key, and reversed again, so that elements with equal keys keep
  their original order.
\<close>

definition py_sort_reverse :: "('a \<Rightarrow> 'k::linorder) \<Rightarrow> 'a list \<Rightarrow> 'a list" where
  "py_sort_reverse key xs = rev (sort_key key (rev xs))"

text \<open>The loop, and the state of the loop when the \<open>with\<close> block is left.\<close>

definition run_loop ::
  "(string \<Rightarrow> parsed_feed) \<Rightarrow> int \<Rightarrow> loop_state \<Rightarrow> (url \<times> (exn + string)) list \<Rightarrow> loop_state" where
  "run_loop prs k s cs = foldl (handle_completed prs k) s cs"

definition collect :: "env \<Rightarrow> world \<Rightarrow> FeedMixer \<Rightarrow> loop_state" where
  "collect ev w fm =
     run_loop (parse ev) (p_num_keep fm)
       \<lparr>l_cache = lru w, l_parsed_entries = [], l_error_urls = Map.empty\<rparr>
       (as_completed ev (feeds fm))"

text \<open>\<open>parsed_entries\<close> after \<open>parsed_entries.sort(...)\<close>.\<close>

definition merged_entries :: "env \<Rightarrow> world \<Rightarrow> FeedMixer \<Rightarrow> entry list" where
  "merged_entries ev w fm = py_sort_reverse merge_key (l_parsed_entries (collect ev w fm))"

text \<open>
  \<open>__fetch_entries\<close>: the exception that leaves the method, if any, with the process state
  and the object as the method leaves them. \<open>ThreadPoolExecutor(max_workers=n)\<close> raises
  \<open>ValueError\<close> for \<open>n \<le> 0\<close>, before anything is submitted.
\<close>

definition fetch_entries :: "env \<Rightarrow> world \<Rightarrow> FeedMixer \<Rightarrow> exn option \<times> world \<times> FeedMixer" where
  "fetch_entries ev w fm =
     (let fm1 = fm\<lparr>p_error_urls := Map.empty\<rparr> in
      if max_threads fm \<le> 0
      then (Some (ValueError ''max_workers must be greater than 0''), w, fm1)
      else
        (let s = collect ev w fm;
             w' = \<lparr>lru = l_cache s, sent = sent w @ feeds fm\<rparr>;
             fm2 = fm1\<lparr>p_error_urls := l_error_urls s\<rparr>
         in case extract_meta (iri_to_uri ev) (merged_entries ev w fm) (prefer_summary fm) of
              Inl ex \<Rightarrow> (Some ex, w', fm2)
            | Inr ms \<Rightarrow> (None, w', fm2\<lparr>p_mixed_entries := ms\<rparr>)))"

text \<open>The property \<open>mixed_entries\<close>.\<close>

definition mixed_entries ::
  "env \<Rightarrow> world \<Rightarrow> FeedMixer \<Rightarrow> (exn + metadata list) \<times> world \<times> FeedMixer" where
  "mixed_entries ev w fm =
     (if length (p_mixed_entries fm) < 1
      then (case fetch_entries ev w fm of
              (Some ex, w', fm') \<Rightarrow> (Inl ex, w', fm')
            | (None, w', fm') \<Rightarrow> (Inr (p_mixed_entries fm'), w', fm'))
      else (Inr (p_mixed_entries fm), w, fm))"

text \<open>A pipeline run followed by the read of the stored entries.\<close>

definition run_then_read ::
  "env \<Rightarrow> world \<Rightarrow> FeedMixer \<Rightarrow> (exn + metadata list) \<times> world \<times> FeedMixer" where
  "run_then_read ev w fm =
     (case fetch_entries ev w fm of
        (Some ex, w', fm') \<Rightarrow> (Inl ex, w', fm')
      | (None, w', fm') \<Rightarrow> (Inr (p_mixed_entries fm'), w', fm'))"






section \<open>What one source contributes\<close>

text \<open>
  The outcome of the \<open>try\<close> block for a parsed feed and for a completed future, read
  off \<open>handle_completed\<close>: the exception caught, or the entries appended to
  \<open>parsed_entries\<close>.
\<close>

definition feed_result :: "int \<Rightarrow> parsed_feed \<Rightarrow> exn + entry list" where
  "feed_result k f =
     (if length (entries f) = 0 \<and> bozo f then Inl (parse_error_of f)
      else (case annotate_loop (feed f) (newest_of k (entries f)) of
              (es, Some ex) \<Rightarrow> Inl ex
            | (es, None) \<Rightarrow> Inr es))"

definition source_result :: "(string \<Rightarrow> parsed_feed) \<Rightarrow> int \<Rightarrow> exn + string \<Rightarrow> exn + entry list" where
  "source_result prs k r = (case r of Inl ex \<Rightarrow> Inl ex | Inr text \<Rightarrow> feed_result k (prs text))"

definition contribution ::
  "(string \<Rightarrow> parsed_feed) \<Rightarrow> int \<Rightarrow> url \<times> (exn + string) \<Rightarrow> entry list" where
  "contribution prs k c = (case source_result prs k (snd c) of Inl ex \<Rightarrow> [] | Inr es \<Rightarrow> es)"

text \<open>
  The cache holds, for each text, the parser's output up to the annotations that the
  loop writes into the kept entries.
\<close>

definition entry_ok :: "feed_t \<Rightarrow> entry \<Rightarrow> entry \<Rightarrow> bool" where
  "entry_ok fd e0 e' = (e' = e0 \<or> e' = fst (annotate fd e0))"

definition feed_ok :: "parsed_feed \<Rightarrow> parsed_feed \<Rightarrow> bool" where
  "feed_ok f0 f' =
     (bozo f' = bozo f0 \<and> bozo_exception f' = bozo_exception f0 \<and> feed f' = feed f0 \<and>
      list_all2 (entry_ok (feed f0)) (entries f0) (entries f'))"

definition cache_ok :: "(string \<Rightarrow> parsed_feed) \<Rightarrow> parser_cache \<Rightarrow> bool" where
  "cache_ok prs c = list_all (\<lambda>kv. feed_ok (prs (fst kv)) (snd kv)) c"

text \<open>
  An entry has a timestamp when \<open>e.get('published') or e.get('updated')\<close> is true in
  Python's sense: one of the two is present and not the empty string.
\<close>

definition has_timestamp :: "entry \<Rightarrow> bool" where
  "has_timestamp e =
     ((case e_published e of Some p \<Rightarrow> p \<noteq> [] | None \<Rightarrow> False) \<or>
      (case e_updated e of Some u \<Rightarrow> u \<noteq> [] | None \<Rightarrow> False))"

text \<open>The state in which the loop of \<open>__fetch_entries\<close> starts.\<close>

definition initial_loop_state :: "world \<Rightarrow> loop_state" where
  "initial_loop_state w = \<lparr>l_cache = lru w, l_parsed_entries = [], l_error_urls = Map.empty\<rparr>"

text \<open>
  The merge keys of what the feed at position \<open>i\<close> of the list contributes, and the
  condition that no two positions contribute entries with a common key.
\<close>

definition keys_of :: "env \<Rightarrow> FeedMixer \<Rightarrow> nat \<Rightarrow> string list" where
  "keys_of ev fm i =
     map merge_key
       (contribution (parse ev) (num_keep fm) (feeds fm ! i, sess_get ev (feeds fm ! i)))"

definition no_shared_keys :: "env \<Rightarrow> FeedMixer \<Rightarrow> bool" where
  "no_shared_keys ev fm =
     list_all (\<lambda>i. list_all (\<lambda>j. i = j \<or> list_all (\<lambda>k. k \<notin> set (keys_of ev fm j)) (keys_of ev fm i))
                    [0..<length (feeds fm)])
       [0..<length (feeds fm)]"

section \<open>A small installation\<close>

definition no_entry :: entry where
  "no_entry =
     \<lparr>e_title = None, e_link = None, e_summary = None, e_content = None,
      e_author_detail = None, e_feed_link = None, e_feed_title = None,
      e_published = None, e_updated = None, e_published_parsed = None,
      e_updated_parsed = None, e_comments = None, e_id = None, e_license = None,
      e_tags = None, e_enclosures = None\<rparr>"

definition dated :: "string \<Rightarrow> string \<Rightarrow> entry" where
  "dated t p = no_entry\<lparr>e_title := Some t, e_published := Some p\<rparr>"

definition ex_feed_a :: parsed_feed where
  "ex_feed_a =
     \<lparr>entries = [dated ''a1'' ''3'', dated ''a2'' ''1''], bozo = False, bozo_exception = None,
      feed = \<lparr>fd_link = Some ''la'', fd_title = Some ''A'', fd_author_detail = None\<rparr>\<rparr>"

definition ex_feed_b :: parsed_feed where
  "ex_feed_b =
     \<lparr>entries = [dated ''b1'' ''2''], bozo = False, bozo_exception = None,
      feed = \<lparr>fd_link = Some ''lb'', fd_title = Some ''B'', fd_author_detail = None\<rparr>\<rparr>"

definition ex_feed_c :: parsed_feed where
  "ex_feed_c =
     \<lparr>entries = [dated ''c1'' ''3''], bozo = False, bozo_exception = None,
      feed = \<lparr>fd_link = Some ''lc'', fd_title = Some ''C'', fd_author_detail = None\<rparr>\<rparr>"

definition ex_feed_d :: parsed_feed where
  "ex_feed_d =
     \<lparr>entries = [no_entry\<lparr>e_title := Some ''d1''\<rparr>, dated ''d2'' ''2''], bozo = False,
      bozo_exception = None,
      feed = \<lparr>fd_link = Some ''ld'', fd_title = Some ''D'', fd_author_detail = None\<rparr>\<rparr>"

definition ex_feed_bad :: parsed_feed where
  "ex_feed_bad =
     \<lparr>entries = [], bozo = True, bozo_exception = Some ''syntax error'',
      feed = \<lparr>fd_link = None, fd_title = None, fd_author_detail = None\<rparr>\<rparr>"

definition ex_env :: env where
  "ex_env =
     \<lparr>sess_get = (\<lambda>u. if u = ''a'' then Inr ''A'' else if u = ''b'' then Inr ''B''
                     else if u = ''c'' then Inr ''C'' else if u = ''d'' then Inr ''D''
                     else if u = ''x'' then Inr ''X'' else Inl (RequestException ''404'')),
      parse = (\<lambda>t. if t = ''A'' then ex_feed_a else if t = ''B'' then ex_feed_b
                  else if t = ''C'' then ex_feed_c else if t = ''D'' then ex_feed_d
                  else ex_feed_bad),
      completion_time = (\<lambda>i. i),
      iri_to_uri = (\<lambda>s. s),
      writeString = (\<lambda>g. ''feed'')\<rparr>"

definition ex_world :: world where
  "ex_world = \<lparr>lru = [], sent = []\<rparr>"

definition ex_mixer :: "url list \<Rightarrow> int \<Rightarrow> int \<Rightarrow> FeedMixer" where
  "ex_mixer fds nk mt = FeedMixer_init ''Title'' [] [] fds nk True mt 100"

text \<open>
  A feed with the dates of an RSS feed, the newer entry first as the parser gives them,
  and a feed whose entries are in order but whose feed-level data has no link (an Atom
  feed without an alternate link).
\<close>

definition ex_feed_rss :: parsed_feed where
  "ex_feed_rss =
     \<lparr>entries =
        [no_entry\<lparr>e_title := Some ''new'',
                  e_published := Some ''Mon, 06 Jan 2020 00:00:00 GMT'',
                  e_published_parsed :=
                    Some \<lparr>tm_year = 2020, tm_mon = 1, tm_mday = 6,
                          tm_hour = 0, tm_min = 0, tm_sec = 0\<rparr>\<rparr>,
         no_entry\<lparr>e_title := Some ''old'',
                  e_published := Some ''Wed, 01 Jan 2020 00:00:00 GMT'',
                  e_published_parsed :=
                    Some \<lparr>tm_year = 2020, tm_mon = 1, tm_mday = 1,
                          tm_hour = 0, tm_min = 0, tm_sec = 0\<rparr>\<rparr>],
      bozo = False, bozo_exception = None,
      feed = \<lparr>fd_link = Some ''lr'', fd_title = Some ''R'', fd_author_detail = None\<rparr>\<rparr>"

definition ex_env_rss :: env where
  "ex_env_rss = ex_env\<lparr>sess_get := (\<lambda>u. Inr ''R''), parse := (\<lambda>t. ex_feed_rss)\<rparr>"

definition ex_feed_nolink :: parsed_feed where
  "ex_feed_nolink =
     \<lparr>entries = [dated ''n1'' ''2'', dated ''n2'' ''1''], bozo = False, bozo_exception = None,
      feed = \<lparr>fd_link = None, fd_title = Some ''N'', fd_author_detail = None\<rparr>\<rparr>"

definition ex_env_nolink :: env where
  "ex_env_nolink = ex_env\<lparr>sess_get := (\<lambda>u. Inr ''N''), parse := (\<lambda>t. ex_feed_nolink)\<rparr>"

text \<open>
  A time tuple as the list of its fields, the most significant first; lists are compared
  lexicographically, which is the order in time.
\<close>

definition time_of :: "time_struct \<Rightarrow> int list" where
  "time_of t = [tm_year t, tm_mon t, tm_mday t, tm_hour t, tm_min t, tm_sec t]"

definition ex_run :: "url list \<Rightarrow> int \<Rightarrow> int \<Rightarrow> exn option \<times> world \<times> FeedMixer" where
  "ex_run fds nk mt = fetch_entries ex_env ex_world (ex_mixer fds nk mt)"

lemmas ex_defs = ex_run_def ex_mixer_def FeedMixer_init_def py_slice_to_def ex_world_def
  ex_env_def ex_feed_a_def ex_feed_b_def ex_feed_c_def ex_feed_d_def ex_feed_bad_def dated_def
  no_entry_def

lemmas run_defs = fetch_entries_def collect_def run_loop_def as_completed_def feeds_def
  handle_completed_def cache_parser_def mutate_cached_def newest_of_def annotate_def
  parse_error_of_def merged_entries_def py_sort_reverse_def merge_key_def
  extract_one_def opt_str_def first_content_def py_or_def opt_datetime_def ebind_def
  maxsize_def mixed_entries_def

section \<open>The loop through the cache\<close>

text \<open>
  Writing the annotations a second time changes nothing, so what a source contributes does
  not depend on whether its feed came out of the cache or out of the parser.
\<close>

lemma annotate_idem: "annotate fd (fst (annotate fd e)) = annotate fd e"
  by (simp add: annotate_def Let_def split: option.splits)

lemma entry_ok_refl: "entry_ok fd e e"
  by (simp add: entry_ok_def)

lemma entry_ok_annotate: "entry_ok fd e0 e' \<Longrightarrow> annotate fd e' = annotate fd e0"
  by (auto simp: entry_ok_def annotate_idem)

lemma entry_ok_step: "entry_ok fd e0 e' \<Longrightarrow> entry_ok fd e0 (fst (annotate fd e'))"
  by (simp add: entry_ok_annotate) (simp add: entry_ok_def)

lemma length_annotate_loop: "length (fst (annotate_loop fd es)) = length es"
  by (induction es) (auto split: prod.splits option.splits)

lemma annotate_loop_ok:
  "list_all2 (entry_ok fd) es0 es' \<Longrightarrow>
     snd (annotate_loop fd es') = snd (annotate_loop fd es0) \<and>
     list_all2 (entry_ok fd) es0 (fst (annotate_loop fd es')) \<and>
     (snd (annotate_loop fd es0) = None \<longrightarrow>
        fst (annotate_loop fd es') = fst (annotate_loop fd es0))"
proof (induction es0 es' rule: list_all2_induct)
  case Nil
  then show ?case by simp
next
  case (Cons e0 es0 e' es')
  have a: "annotate fd e' = annotate fd e0"
    using Cons.hyps(1) by (rule entry_ok_annotate)
  have b: "entry_ok fd e0 (fst (annotate fd e0))"
    by (simp add: entry_ok_def)
  show ?case
  proof (cases "snd (annotate fd e0)")
    case None
    then show ?thesis
      using Cons.IH a b by (cases "annotate fd e0") (auto split: prod.splits)
  next
    case (Some x)
    then show ?thesis
      using Cons.hyps(2) a b by (cases "annotate fd e0") auto
  qed
qed

lemma newest_of_all2: "list_all2 P xs ys \<Longrightarrow> list_all2 P (newest_of k xs) (newest_of k ys)"
  by (simp add: newest_of_def)

lemma newest_of_split: "newest_of k es @ drop (length (newest_of k es)) es = es"
  by (simp add: newest_of_def min_def)

lemma length_newest_of: "length (newest_of k es) = (if k < 1 then length es else min (nat k) (length es))"
  by (simp add: newest_of_def min.commute)

lemma feed_ok_refl: "feed_ok f f"
  by (simp add: feed_ok_def list_all2_refl entry_ok_refl)

lemma feed_ok_result: "feed_ok f0 f \<Longrightarrow> feed_result k f = feed_result k f0"
proof -
  assume ok: "feed_ok f0 f"
  then have len: "length (entries f) = length (entries f0)"
    by (auto simp: feed_ok_def dest: list_all2_lengthD)
  have pe: "parse_error_of f = parse_error_of f0"
    using ok by (simp add: parse_error_of_def feed_ok_def)
  have fd: "feed f = feed f0" and bz: "bozo f = bozo f0"
    using ok by (simp_all add: feed_ok_def)
  have "list_all2 (entry_ok (feed f0)) (newest_of k (entries f0)) (newest_of k (entries f))"
    using ok by (simp add: feed_ok_def newest_of_all2)
  from annotate_loop_ok [OF this]
  show ?thesis
    by (cases "annotate_loop (feed f0) (newest_of k (entries f0))";
        cases "annotate_loop (feed f0) (newest_of k (entries f))")
       (auto simp: feed_result_def len pe fd bz split: option.splits)
qed

lemma feed_ok_mutated:
  assumes "feed_ok f0 f"
  shows "feed_ok f0 (f\<lparr>entries := fst (annotate_loop (feed f) (newest_of k (entries f)))
                         @ drop (length (newest_of k (entries f))) (entries f)\<rparr>)"
proof -
  let ?fd = "feed f0"
  have fd: "feed f = ?fd" using assms by (simp add: feed_ok_def)
  have all: "list_all2 (entry_ok ?fd) (entries f0) (entries f)"
    using assms by (simp add: feed_ok_def)
  have n: "list_all2 (entry_ok ?fd) (newest_of k (entries f0)) (newest_of k (entries f))"
    using all by (rule newest_of_all2)
  have len: "length (newest_of k (entries f)) = length (newest_of k (entries f0))"
    using n by (simp add: list_all2_lengthD)
  have a: "list_all2 (entry_ok ?fd) (newest_of k (entries f0))
             (fst (annotate_loop ?fd (newest_of k (entries f))))"
    using annotate_loop_ok [OF n] by simp
  have d: "list_all2 (entry_ok ?fd) (drop (length (newest_of k (entries f0))) (entries f0))
             (drop (length (newest_of k (entries f))) (entries f))"
    using all by (simp add: len)
  have "list_all2 (entry_ok ?fd)
          (newest_of k (entries f0) @ drop (length (newest_of k (entries f0))) (entries f0))
          (fst (annotate_loop ?fd (newest_of k (entries f)))
             @ drop (length (newest_of k (entries f))) (entries f))"
    using a d by (rule list_all2_appendI)
  then show ?thesis
    using assms by (simp add: feed_ok_def newest_of_split fd)
qed

lemma cache_parser_ok:
  assumes "cache_ok prs c"
  shows "feed_ok (prs text) (fst (cache_parser prs text c))"
    and "cache_ok prs (snd (cache_parser prs text c))"
proof -
  show "feed_ok (prs text) (fst (cache_parser prs text c))"
  proof (cases "map_of c text")
    case None
    then show ?thesis by (simp add: cache_parser_def feed_ok_refl Let_def)
  next
    case (Some f)
    then have "(text, f) \<in> set c" by (rule map_of_SomeD)
    then have "feed_ok (prs text) f"
      using assms by (auto simp: cache_ok_def list_all_iff)
    then show ?thesis using Some by (simp add: cache_parser_def)
  qed
  show "cache_ok prs (snd (cache_parser prs text c))"
  proof (cases "map_of c text")
    case None
    have "set (take maxsize ((text, prs text) # c)) \<subseteq> set ((text, prs text) # c)"
      by (rule set_take_subset)
    then show ?thesis
      using assms None
      by (auto simp: cache_parser_def cache_ok_def list_all_iff feed_ok_refl Let_def)
  next
    case (Some f)
    then have "(text, f) \<in> set c" by (rule map_of_SomeD)
    then show ?thesis
      using assms Some by (auto simp: cache_parser_def cache_ok_def list_all_iff)
  qed
qed

lemma mutate_cached_ok:
  "cache_ok prs c \<Longrightarrow> feed_ok (prs text) f' \<Longrightarrow> cache_ok prs (mutate_cached text f' c)"
  by (auto simp: cache_ok_def mutate_cached_def list_all_iff)

lemma handle_completed_ok:
  assumes "cache_ok prs (l_cache s)"
  shows "l_parsed_entries (handle_completed prs k s c) = l_parsed_entries s @ contribution prs k c \<and>
         l_error_urls (handle_completed prs k s c) =
           (case source_result prs k (snd c) of
              Inl ex \<Rightarrow> (l_error_urls s)(fst c \<mapsto> ex)
            | Inr es \<Rightarrow> l_error_urls s) \<and>
         cache_ok prs (l_cache (handle_completed prs k s c))"
proof (cases "snd c")
  case (Inl ex)
  then show ?thesis
    using assms by (simp add: handle_completed_def contribution_def source_result_def)
next
  case (Inr body)
  obtain f c1 where cp: "cache_parser prs body (l_cache s) = (f, c1)"
    by (cases "cache_parser prs body (l_cache s)")
  have fok: "feed_ok (prs body) f" and c1ok: "cache_ok prs c1"
    using cache_parser_ok [OF assms, of body] cp by simp_all
  have res: "feed_result k f = feed_result k (prs body)"
    using fok by (rule feed_ok_result)
  show ?thesis
  proof (cases "length (entries f) = 0 \<and> bozo f")
    case True
    then have "feed_result k (prs body) = Inl (parse_error_of f)"
      using res by (simp add: feed_result_def)
    then show ?thesis
      using Inr cp c1ok True
      by (simp add: handle_completed_def contribution_def source_result_def)
  next
    case False
    let ?old = "newest_of k (entries f)"
    obtain newest raised where al: "annotate_loop (feed f) ?old = (newest, raised)"
      by (cases "annotate_loop (feed f) ?old")
    have "feed_ok (prs body) (f\<lparr>entries := newest @ drop (length ?old) (entries f)\<rparr>)"
      using feed_ok_mutated [OF fok, of k] al by simp
    then have c2ok: "cache_ok prs (mutate_cached body
                        (f\<lparr>entries := newest @ drop (length ?old) (entries f)\<rparr>) c1)"
      using c1ok by (simp add: mutate_cached_ok)
    have "feed_result k f = (case raised of Some ex \<Rightarrow> Inl ex | None \<Rightarrow> Inr newest)"
      using False al by (auto simp: feed_result_def split: option.splits)
    then have fr: "feed_result k (prs body) = (case raised of Some ex \<Rightarrow> Inl ex | None \<Rightarrow> Inr newest)"
      by (simp only: res)
    show ?thesis
      using Inr cp False al c2ok fr
      by (cases raised)
         (auto simp: handle_completed_def contribution_def source_result_def Let_def)
  qed
qed

lemma run_loop_ok:
  "cache_ok prs (l_cache s) \<Longrightarrow>
     l_parsed_entries (run_loop prs k s cs) = l_parsed_entries s @ concat (map (contribution prs k) cs) \<and>
     cache_ok prs (l_cache (run_loop prs k s cs))"
proof (induction cs arbitrary: s)
  case Nil
  then show ?case by (simp add: run_loop_def)
next
  case (Cons c cs)
  have h: "cache_ok prs (l_cache (handle_completed prs k s c))"
    using handle_completed_ok [OF Cons.prems] by simp
  show ?case
    using Cons.IH [OF h] handle_completed_ok [OF Cons.prems, of k c]
    by (simp add: run_loop_def)
qed

lemma run_loop_errors:
  assumes "cache_ok prs (l_cache s)" and "\<forall>c \<in> set cs. snd c = g (fst c)"
  shows "l_error_urls (run_loop prs k s cs) u =
           (if u \<in> fst ` set cs
            then (case source_result prs k (g u) of
                    Inl ex \<Rightarrow> Some ex
                  | Inr es \<Rightarrow> l_error_urls s u)
            else l_error_urls s u)"
  using assms
proof (induction cs arbitrary: s)
  case Nil
  then show ?case by (simp add: run_loop_def)
next
  case (Cons c cs)
  let ?s1 = "handle_completed prs k s c"
  have h: "cache_ok prs (l_cache ?s1)"
    using handle_completed_ok [OF Cons.prems(1)] by simp
  have e: "l_error_urls ?s1 =
             (case source_result prs k (g (fst c)) of
                Inl ex \<Rightarrow> (l_error_urls s)(fst c \<mapsto> ex)
              | Inr es \<Rightarrow> l_error_urls s)"
    using handle_completed_ok [OF Cons.prems(1), of k c] Cons.prems(2) by simp
  have rest: "\<forall>c \<in> set cs. snd c = g (fst c)"
    using Cons.prems(2) by simp
  have step: "run_loop prs k s (c # cs) = run_loop prs k ?s1 cs"
    by (simp add: run_loop_def)
  show ?case
    unfolding step Cons.IH [OF h rest] e
    by (cases "u = fst c") (auto split: sum.splits)
qed

lemma set_as_completed: "set (as_completed ev urls) = (\<lambda>u. (u, sess_get ev u)) ` set urls"
proof -
  have "set (as_completed ev urls) = (\<lambda>i. (urls ! i, sess_get ev (urls ! i))) ` {0..<length urls}"
    by (simp add: as_completed_def)
  also have "\<dots> = (\<lambda>u. (u, sess_get ev u)) ` ((\<lambda>i. urls ! i) ` {0..<length urls})"
    by (simp add: image_image)
  also have "(\<lambda>i. urls ! i) ` {0..<length urls} = set urls"
    by (auto simp: set_conv_nth)
  finally show ?thesis .
qed

lemma collect_entries:
  "cache_ok (parse ev) (lru w) \<Longrightarrow>
     l_parsed_entries (collect ev w fm) =
       concat (map (contribution (parse ev) (p_num_keep fm)) (as_completed ev (feeds fm)))"
  using run_loop_ok [of "parse ev" "\<lparr>l_cache = lru w, l_parsed_entries = [], l_error_urls = Map.empty\<rparr>"]
  by (simp add: collect_def)


lemma collect_errors:
  assumes "cache_ok (parse ev) (lru w)"
  shows "l_error_urls (collect ev w fm) u =
           (if u \<in> set (feeds fm)
            then (case source_result (parse ev) (p_num_keep fm) (sess_get ev u) of
                    Inl ex \<Rightarrow> Some ex
                  | Inr es \<Rightarrow> None)
            else None)"
proof -
  have a: "\<forall>c \<in> set (as_completed ev (feeds fm)). snd c = sess_get ev (fst c)"
    by (auto simp: set_as_completed)
  have b: "fst ` set (as_completed ev (feeds fm)) = set (feeds fm)"
    by (auto simp: set_as_completed image_image)
  show ?thesis
    unfolding collect_def
    using run_loop_errors [of "parse ev" "\<lparr>l_cache = lru w, l_parsed_entries = [], l_error_urls = Map.empty\<rparr>"
        "as_completed ev (feeds fm)" "sess_get ev" "p_num_keep fm" u] assms a
    by (simp add: b split: sum.splits)
qed

section \<open>What a pipeline run leaves behind\<close>

lemma fetch_entries_pool_error:
  "max_threads fm \<le> 0 \<Longrightarrow>
     fetch_entries ev w fm =
       (Some (ValueError ''max_workers must be greater than 0''), w, fm\<lparr>p_error_urls := Map.empty\<rparr>)"
  by (simp add: fetch_entries_def)

lemma fetch_entries_world:
  "0 < max_threads fm \<Longrightarrow>
     fst (snd (fetch_entries ev w fm)) = \<lparr>lru = l_cache (collect ev w fm), sent = sent w @ feeds fm\<rparr>"
  by (simp add: fetch_entries_def Let_def split: sum.splits)

lemma fetch_entries_errors:
  "0 < max_threads fm \<Longrightarrow>
     p_error_urls (snd (snd (fetch_entries ev w fm))) = l_error_urls (collect ev w fm)"
  by (simp add: fetch_entries_def Let_def split: sum.splits)

lemma fetch_entries_config:
  "max_threads (snd (snd (fetch_entries ev w fm))) = max_threads fm \<and>
   p_feeds (snd (snd (fetch_entries ev w fm))) = p_feeds fm \<and>
   p_num_keep (snd (snd (fetch_entries ev w fm))) = p_num_keep fm \<and>
   max_feeds (snd (snd (fetch_entries ev w fm))) = max_feeds fm \<and>
   prefer_summary (snd (snd (fetch_entries ev w fm))) = prefer_summary fm"
  by (simp add: fetch_entries_def Let_def split: sum.splits)

lemma fetch_entries_outcome:
  "0 < max_threads fm \<Longrightarrow>
     fst (fetch_entries ev w fm) =
       (case extract_meta (iri_to_uri ev) (merged_entries ev w fm) (prefer_summary fm) of
          Inl ex \<Rightarrow> Some ex | Inr ms \<Rightarrow> None) \<and>
     p_mixed_entries (snd (snd (fetch_entries ev w fm))) =
       (case extract_meta (iri_to_uri ev) (merged_entries ev w fm) (prefer_summary fm) of
          Inl ex \<Rightarrow> p_mixed_entries fm | Inr ms \<Rightarrow> ms)"
  by (simp add: fetch_entries_def Let_def split: sum.splits)

lemma fetch_entries_None:
  "fst (fetch_entries ev w fm) = None \<Longrightarrow>
     0 < max_threads fm \<and>
     extract_meta (iri_to_uri ev) (merged_entries ev w fm) (prefer_summary fm) =
       Inr (p_mixed_entries (snd (snd (fetch_entries ev w fm))))"
  by (simp add: fetch_entries_def Let_def split: sum.splits if_splits)

lemma mixed_entries_unfetched:
  "p_mixed_entries fm = [] \<Longrightarrow> mixed_entries ev w fm = run_then_read ev w fm"
  by (simp add: mixed_entries_def run_then_read_def)

lemma run_then_read_sent:
  "0 < max_threads fm \<Longrightarrow> sent (fst (snd (run_then_read ev w fm))) = sent w @ feeds fm"
  using fetch_entries_world [of fm ev w]
  by (cases "fetch_entries ev w fm") (auto simp: run_then_read_def split: option.splits)

lemma run_then_read_errors:
  "0 < max_threads fm \<Longrightarrow>
     p_error_urls (snd (snd (run_then_read ev w fm))) = l_error_urls (collect ev w fm)"
  using fetch_entries_errors [of fm ev w]
  by (cases "fetch_entries ev w fm") (auto simp: run_then_read_def split: option.splits)


section \<open>Cached results and configuration changes\<close>

text \<open>
  Claim C5. Assigning \<open>feeds\<close> or \<open>num_keep\<close> empties the stored entries, whatever
  they were (the object after the assignment does not depend on them), and the next read
  of \<open>mixed_entries\<close> is a pipeline run: it returns what \<open>__fetch_entries\<close> computes
  from the current surroundings and sends one request per configured feed.
\<close>

theorem C5_setters_discard_cached_result:
  "p_mixed_entries (set_feeds v fm) = [] \<and>
   p_mixed_entries (set_num_keep n fm) = [] \<and>
   set_feeds v (fm\<lparr>p_mixed_entries := old\<rparr>) = set_feeds v fm \<and>
   set_num_keep n (fm\<lparr>p_mixed_entries := old\<rparr>) = set_num_keep n fm \<and>
   num_keep (set_num_keep n fm) = n \<and>
   feeds (set_feeds v fm) = py_slice_to (max_feeds fm) v \<and>
   mixed_entries ev w (set_feeds v fm) = run_then_read ev w (set_feeds v fm) \<and>
   mixed_entries ev w (set_num_keep n fm) = run_then_read ev w (set_num_keep n fm) \<and>
   (0 < max_threads fm \<longrightarrow>
      sent (fst (snd (mixed_entries ev w (set_feeds v fm)))) = sent w @ feeds (set_feeds v fm) \<and>
      sent (fst (snd (mixed_entries ev w (set_num_keep n fm)))) =
        sent w @ feeds (set_num_keep n fm))"
proof -
  have a: "p_mixed_entries (set_feeds v fm) = []" for v fm
    by (simp add: set_feeds_def)
  have b: "p_mixed_entries (set_num_keep n fm) = []"
    by (simp add: set_num_keep_def set_feeds_def)
  have c: "max_threads (set_feeds v fm) = max_threads fm"
    "max_threads (set_num_keep n fm) = max_threads fm"
    by (simp_all add: set_num_keep_def set_feeds_def)
  show ?thesis
    using a b
    by (simp add: mixed_entries_unfetched run_then_read_sent c)
       (simp add: set_num_keep_def set_feeds_def num_keep_def feeds_def)
qed

text \<open>
  After a run with \<open>num_keep = 1\<close> that stored one entry, setting \<open>num_keep\<close> to 2
  makes the next read fetch the feed again and return two entries.
\<close>

theorem C5_setters_discard_cached_result_witness:
  "0 < max_threads (snd (snd (ex_run [''a''] 1 10))) \<and>
   map (\<lambda>m. map_of m ''title'') (p_mixed_entries (snd (snd (ex_run [''a''] 1 10))))
     = [Some (MStr ''a1'')] \<and>
   sent (fst (snd (ex_run [''a''] 1 10))) = [''a''] \<and>
   sent (fst (snd (mixed_entries ex_env (fst (snd (ex_run [''a''] 1 10)))
      (set_num_keep 2 (snd (snd (ex_run [''a''] 1 10))))))) = [''a'', ''a''] \<and>
   map (\<lambda>m. map_of m ''title'')
     (p_mixed_entries (snd (snd (mixed_entries ex_env (fst (snd (ex_run [''a''] 1 10)))
        (set_num_keep 2 (snd (snd (ex_run [''a''] 1 10))))))))
     = [Some (MStr ''a1''), Some (MStr ''a2'')]"
proof -
  have h: "0 < max_threads (snd (snd (ex_run [''a''] 1 10)))"
    by (simp add: ex_defs fetch_entries_config)
  have s: "sent (fst (snd (ex_run [''a''] 1 10))) = [''a'']"
    by (simp add: ex_defs fetch_entries_world feeds_def)
  have f: "feeds (set_num_keep 2 (snd (snd (ex_run [''a''] 1 10)))) = [''a'']"
    by (simp add: set_num_keep_def set_feeds_def feeds_def fetch_entries_config ex_defs)
  have t1: "map (\<lambda>m. map_of m ''title'') (p_mixed_entries (snd (snd (ex_run [''a''] 1 10))))
     = [Some (MStr ''a1'')]"
    by (simp add: ex_defs run_defs upt_rec Let_def)
  have t2: "map (\<lambda>m. map_of m ''title'')
     (p_mixed_entries (snd (snd (mixed_entries ex_env (fst (snd (ex_run [''a''] 1 10)))
        (set_num_keep 2 (snd (snd (ex_run [''a''] 1 10))))))))
     = [Some (MStr ''a1''), Some (MStr ''a2'')]"
    by (simp add: ex_defs run_defs set_num_keep_def set_feeds_def upt_rec Let_def)
  have "sent (fst (snd (mixed_entries ex_env (fst (snd (ex_run [''a''] 1 10)))
      (set_num_keep 2 (snd (snd (ex_run [''a''] 1 10))))))) =
      sent (fst (snd (ex_run [''a''] 1 10))) @
      feeds (set_num_keep 2 (snd (snd (ex_run [''a''] 1 10))))"
    using C5_setters_discard_cached_result [of "[]" "snd (snd (ex_run [''a''] 1 10))" 2 "[]" ex_env
        "fst (snd (ex_run [''a''] 1 10))"] h
    by blast
  then show ?thesis
    using h s f t1 t2 by simp
qed

section \<open>Reading the error map\<close>

text \<open>
  Claim C6 says that the first read of \<open>error_urls\<close> runs the pipeline. The property
  only returns \<open>self._error_urls\<close>: on a new object whose only feed cannot be
  fetched it answers the empty map, while the run that a read of \<open>mixed_entries\<close>
  triggers records the failure.
\<close>

theorem C6_counterexample:
  "error_urls (ex_mixer [''z''] 3 10) ''z'' = None \<and>
   error_urls (snd (snd (mixed_entries ex_env ex_world (ex_mixer [''z''] 3 10)))) ''z''
     = Some (RequestException ''404'')"
  by (simp add: error_urls_def ex_defs run_defs upt_rec Let_def)

text \<open>
  Claim C6, amended. Reading \<open>error_urls\<close> returns the stored map and nothing else: the
  empty map on a new object, and after a read of \<open>mixed_entries\<close> on an unfetched
  object the map that this run filled. Only the read of \<open>mixed_entries\<close> (and the
  renderers through it) runs the pipeline on an unfetched object.
\<close>

theorem C6_error_urls_is_a_plain_read:
  "error_urls fm = p_error_urls fm \<and>
   error_urls (FeedMixer_init ttl lnk dsc fds nk ps mt mf) = Map.empty \<and>
   (p_mixed_entries fm = [] \<longrightarrow> mixed_entries ev w fm = run_then_read ev w fm) \<and>
   (p_mixed_entries fm = [] \<and> 0 < max_threads fm \<longrightarrow>
      sent (fst (snd (mixed_entries ev w fm))) = sent w @ feeds fm \<and>
      error_urls (snd (snd (mixed_entries ev w fm))) = l_error_urls (collect ev w fm))"
  by (simp add: error_urls_def FeedMixer_init_def mixed_entries_unfetched run_then_read_sent
        run_then_read_errors)

theorem C6_error_urls_is_a_plain_read_witness:
  "p_mixed_entries (ex_mixer [''z''] 3 10) = [] \<and> 0 < max_threads (ex_mixer [''z''] 3 10) \<and>
   sent (fst (snd (mixed_entries ex_env ex_world (ex_mixer [''z''] 3 10)))) = [''z''] \<and>
   error_urls (snd (snd (mixed_entries ex_env ex_world (ex_mixer [''z''] 3 10)))) ''z''
     = Some (RequestException ''404'')"
proof -
  have h: "p_mixed_entries (ex_mixer [''z''] 3 10) = [] \<and> 0 < max_threads (ex_mixer [''z''] 3 10)"
    by (simp add: ex_defs)
  have e: "l_error_urls (collect ex_env ex_world (ex_mixer [''z''] 3 10)) ''z''
             = Some (RequestException ''404'')"
    by (simp add: ex_defs run_defs upt_rec)
  have "sent (fst (snd (mixed_entries ex_env ex_world (ex_mixer [''z''] 3 10)))) =
          sent ex_world @ feeds (ex_mixer [''z''] 3 10) \<and>
        error_urls (snd (snd (mixed_entries ex_env ex_world (ex_mixer [''z''] 3 10)))) =
          l_error_urls (collect ex_env ex_world (ex_mixer [''z''] 3 10))"
    using C6_error_urls_is_a_plain_read [of "ex_mixer [''z''] 3 10" "[]" "[]" "[]" "[]" 3 True 10 100
        ex_env ex_world] h
    by blast
  then show ?thesis
    using h e by (simp add: ex_defs feeds_def)
qed

section \<open>Configuration is not validated at construction\<close>

text \<open>
  Claim C7 says that a concurrency bound of zero is rejected by the constructor. The
  constructor stores it; the error comes from the thread pool, at the first read of
  \<open>mixed_entries\<close>.
\<close>

theorem C7_counterexample:
  "max_threads (FeedMixer_init ''Title'' [] [] [''a''] 3 True 0 100) = 0 \<and>
   fst (mixed_entries ex_env ex_world (FeedMixer_init ''Title'' [] [] [''a''] 3 True 0 100))
     = Inl (ValueError ''max_workers must be greater than 0'')"
  by (simp add: FeedMixer_init_def mixed_entries_def fetch_entries_def)

text \<open>
  Claim C7, amended. The constructor checks nothing and cannot fail: it stores the values
  it is given, the feed list cut to \<open>max_feeds\<close>. A concurrency bound \<open>\<le> 0\<close> shows
  at the first read of \<open>mixed_entries\<close>, which raises \<open>ValueError\<close> before any request
  is sent and leaves the object as it was; with a positive bound that read sends one
  request per feed.
\<close>

theorem C7_construction_unchecked:
  "max_threads (FeedMixer_init ttl lnk dsc fds nk ps mt mf) = mt \<and>
   num_keep (FeedMixer_init ttl lnk dsc fds nk ps mt mf) = nk \<and>
   max_feeds (FeedMixer_init ttl lnk dsc fds nk ps mt mf) = mf \<and>
   feeds (FeedMixer_init ttl lnk dsc fds nk ps mt mf) = py_slice_to mf fds \<and>
   p_mixed_entries (FeedMixer_init ttl lnk dsc fds nk ps mt mf) = [] \<and>
   (mt \<le> 0 \<longrightarrow>
      mixed_entries ev w (FeedMixer_init ttl lnk dsc fds nk ps mt mf) =
        (Inl (ValueError ''max_workers must be greater than 0''), w,
         FeedMixer_init ttl lnk dsc fds nk ps mt mf)) \<and>
   (0 < mt \<longrightarrow>
      sent (fst (snd (mixed_entries ev w (FeedMixer_init ttl lnk dsc fds nk ps mt mf))))
        = sent w @ py_slice_to mf fds)"
  by (simp add: FeedMixer_init_def mixed_entries_def fetch_entries_def feeds_def num_keep_def
        Let_def split: sum.splits)

theorem C7_construction_unchecked_witness:
  "(0::int) \<le> 0 \<and> (0::int) < 10 \<and>
   mixed_entries ex_env ex_world (FeedMixer_init ''Title'' [] [] [''a''] 3 True 0 100) =
     (Inl (ValueError ''max_workers must be greater than 0''), ex_world,
      FeedMixer_init ''Title'' [] [] [''a''] 3 True 0 100) \<and>
   sent (fst (snd (mixed_entries ex_env ex_world
      (FeedMixer_init ''Title'' [] [] [''a''] 3 True 10 100)))) = [''a'']"
  using C7_construction_unchecked [of "''Title''" "[]" "[]" "[''a'']" 3 True 0 100 ex_env ex_world]
    C7_construction_unchecked [of "''Title''" "[]" "[]" "[''a'']" 3 True 10 100 ex_env ex_world]
  by (simp add: py_slice_to_def ex_world_def)

lemma extract_meta_length: "extract_meta iri es ps = Inr ms \<Longrightarrow> length ms = length es"
  by (induction es arbitrary: ms) (auto simp: ebind_def split: sum.splits)

lemma mixed_entries_fetched:
  "p_mixed_entries fm \<noteq> [] \<Longrightarrow> mixed_entries ev w fm = (Inr (p_mixed_entries fm), w, fm)"
  by (simp add: mixed_entries_def)

section \<open>An empty result is fetched again\<close>



section \<open>Parse errors\<close>

text \<open>
  Claim C8. A source whose text parses to no entries is recorded in \<open>error_urls\<close>
  exactly when the parser set the bozo flag; the record is a \<open>ParseError\<close>, never the
  exception of a transport failure, and the source contributes no entry. Without the flag
  it is a success with zero entries and no record.
\<close>

theorem C8_no_entries_and_bozo_is_ParseError:
  assumes "cache_ok (parse ev) (lru w)"
    and "0 < max_threads fm"
    and "u \<in> set (feeds fm)"
    and "sess_get ev u = Inr body"
    and "entries (parse ev body) = []"
  shows "error_urls (snd (snd (fetch_entries ev w fm))) u =
           (if bozo (parse ev body) then Some (parse_error_of (parse ev body)) else None) \<and>
         (\<exists>msg. parse_error_of (parse ev body) = ParseError msg) \<and>
         (\<forall>msg. parse_error_of (parse ev body) \<noteq> RequestException msg) \<and>
         contribution (parse ev) (p_num_keep fm) (u, sess_get ev u) = []"
proof -
  have r: "source_result (parse ev) (p_num_keep fm) (sess_get ev u) =
             (if bozo (parse ev body) then Inl (parse_error_of (parse ev body)) else Inr [])"
    using assms(4,5) by (simp add: source_result_def feed_result_def newest_of_def)
  have "l_error_urls (collect ev w fm) u =
          (if bozo (parse ev body) then Some (parse_error_of (parse ev body)) else None)"
    using assms(3) by (simp add: collect_errors [OF assms(1)] r)
  then show ?thesis
    using assms(2) r
    by (simp add: error_urls_def fetch_entries_errors contribution_def parse_error_of_def)
qed

text \<open>The feed behind \<open>x\<close> has no entries and the bozo flag.\<close>

theorem C8_no_entries_and_bozo_is_ParseError_witness:
  "cache_ok (parse ex_env) (lru ex_world) \<and> 0 < max_threads (ex_mixer [''a'', ''x''] 3 10) \<and>
   ''x'' \<in> set (feeds (ex_mixer [''a'', ''x''] 3 10)) \<and> sess_get ex_env ''x'' = Inr ''X'' \<and>
   entries (parse ex_env ''X'') = [] \<and> bozo (parse ex_env ''X'') \<and>
   error_urls (snd (snd (ex_run [''a'', ''x''] 3 10))) ''x''
     = Some (ParseError ''Parse error: syntax error'')"
proof -
  have a: "cache_ok (parse ex_env) (lru ex_world)"
    by (simp add: cache_ok_def ex_world_def)
  have b: "0 < max_threads (ex_mixer [''a'', ''x''] 3 10)"
    by (simp add: ex_defs)
  have c: "''x'' \<in> set (feeds (ex_mixer [''a'', ''x''] 3 10))"
    by (simp add: ex_defs feeds_def)
  have d: "sess_get ex_env ''x'' = Inr ''X''"
    by (simp add: ex_env_def)
  have e: "entries (parse ex_env ''X'') = []" and f: "bozo (parse ex_env ''X'')"
    by (simp_all add: ex_env_def ex_feed_bad_def)
  have g: "parse_error_of (parse ex_env ''X'') = ParseError ''Parse error: syntax error''"
    by (simp add: parse_error_of_def ex_env_def ex_feed_bad_def)
  show ?thesis
    using C8_no_entries_and_bozo_is_ParseError [OF a b c d e] a b c d e f g
    by (simp add: ex_run_def)
qed

section \<open>The order of the merged sequence\<close>

lemma collect_initial:
  "collect ev w fm = run_loop (parse ev) (p_num_keep fm) (initial_loop_state w) (as_completed ev (feeds fm))"
  by (simp add: collect_def initial_loop_state_def)

lemma mset_as_completed:
  "mset (as_completed ev urls) = mset (map (\<lambda>u. (u, sess_get ev u)) urls)"
proof -
  have "mset (as_completed ev urls) =
          mset (map (\<lambda>i. (urls ! i, sess_get ev (urls ! i))) [0..<length urls])"
    by (simp add: as_completed_def)
  also have "map (\<lambda>i. (urls ! i, sess_get ev (urls ! i))) [0..<length urls] =
               map (\<lambda>u. (u, sess_get ev u)) (map (\<lambda>i. urls ! i) [0..<length urls])"
    by simp
  also have "map (\<lambda>i. urls ! i) [0..<length urls] = urls"
    by (rule map_nth)
  finally show ?thesis .
qed

lemma annotate_loop_None:
  "annotate_loop fd es = (es', None) \<Longrightarrow> es' = map (\<lambda>e. fst (annotate fd e)) es"
  by (induction es arbitrary: es') (auto split: prod.splits option.splits)

lemma extract_meta_all2:
  "extract_meta iri es ps = Inr ms \<Longrightarrow> list_all2 (\<lambda>e m. extract_one iri ps e = Inr m) es ms"
  by (induction es arbitrary: ms) (auto simp: ebind_def split: sum.splits)

lemma sorted_py_sort_reverse:
  "sorted_wrt (\<lambda>a b. key b \<le> key a) (py_sort_reverse key xs)"
proof -
  have "sorted (map key (sort_key key (rev xs)))"
    by (rule sorted_sort_key)
  then have "sorted_wrt (\<lambda>a b. key a \<le> key b) (sort_key key (rev xs))"
    by (simp add: sorted_map)
  then show ?thesis
    by (simp add: py_sort_reverse_def sorted_wrt_rev)
qed

lemma mset_py_sort_reverse: "mset (py_sort_reverse key xs) = mset xs"
  by (simp add: py_sort_reverse_def)

lemma stable_py_sort_reverse:
  "filter (\<lambda>x. key x = k) (py_sort_reverse key xs) = filter (\<lambda>x. key x = k) xs"
  by (simp add: py_sort_reverse_def sort_key_stable flip: rev_filter)

lemma merge_key_empty_iff: "merge_key e = [] \<longleftrightarrow> \<not> has_timestamp e"
  by (auto simp: merge_key_def has_timestamp_def split: option.splits)

lemma sorted_desc_empty_last:
  fixes key :: "'a \<Rightarrow> string"
  assumes "sorted_wrt (\<lambda>a b. key b \<le> key a) xs"
    and "i < length xs" and "j < length xs"
    and "key (xs ! i) = []" and "key (xs ! j) \<noteq> []"
  shows "j < i"
proof (rule ccontr)
  assume "\<not> j < i"
  then have "i < j \<or> i = j" by auto
  then show False
  proof
    assume "i < j"
    then have "key (xs ! j) \<le> key (xs ! i)"
      using sorted_wrt_nth_less [OF assms(1) _ assms(3), of i] by simp
    then show False using assms(4,5) by simp
  next
    assume "i = j"
    then show False using assms(4,5) by simp
  qed
qed

text \<open>
  What the sort does: after \<open>parsed_entries.sort(...)\<close> the entries are in
  non-increasing order of the key, which is the text of \<open>published\<close> when it is there
  and not empty, else the text of \<open>updated\<close>, else the empty string. The sorted list is
  a rearrangement of the collected one in which entries with the same key keep their
  order, and every entry without a date text stands after every entry with one. When the
  run ends normally, the stored canonical entries are the images of the sorted entries,
  one by one and in the same order.
\<close>

lemma merged_entries_sorted_by_date_text:
  "sorted_wrt (\<lambda>a b. merge_key b \<le> merge_key a) (merged_entries ev w fm) \<and>
   mset (merged_entries ev w fm) = mset (l_parsed_entries (collect ev w fm)) \<and>
   (\<forall>k. filter (\<lambda>e. merge_key e = k) (merged_entries ev w fm) =
        filter (\<lambda>e. merge_key e = k) (l_parsed_entries (collect ev w fm))) \<and>
   (\<forall>e p. e_published e = Some p \<and> p \<noteq> [] \<longrightarrow> merge_key e = p) \<and>
   (\<forall>e u. (e_published e = None \<or> e_published e = Some []) \<and> e_updated e = Some u
        \<longrightarrow> merge_key e = u) \<and>
   (\<forall>e. \<not> has_timestamp e \<longrightarrow> merge_key e = []) \<and>
   (\<forall>e. e_published e = None \<and> e_updated e = None \<longrightarrow> \<not> has_timestamp e) \<and>
   (\<forall>i j. i < length (merged_entries ev w fm) \<and> j < length (merged_entries ev w fm) \<and>
         \<not> has_timestamp (merged_entries ev w fm ! i) \<and>
         has_timestamp (merged_entries ev w fm ! j) \<longrightarrow> j < i) \<and>
   (fst (fetch_entries ev w fm) = None \<longrightarrow>
      list_all2 (\<lambda>e m. extract_one (iri_to_uri ev) (prefer_summary fm) e = Inr m)
        (merged_entries ev w fm) (p_mixed_entries (snd (snd (fetch_entries ev w fm)))))"
proof -
  have s: "sorted_wrt (\<lambda>a b. merge_key b \<le> merge_key a) (merged_entries ev w fm)"
    by (simp add: merged_entries_def sorted_py_sort_reverse)
  have p: "\<forall>i j. i < length (merged_entries ev w fm) \<and> j < length (merged_entries ev w fm) \<and>
         \<not> has_timestamp (merged_entries ev w fm ! i) \<and>
         has_timestamp (merged_entries ev w fm ! j) \<longrightarrow> j < i"
    using sorted_desc_empty_last [OF s] by (auto simp: merge_key_empty_iff)
  have k: "(\<forall>e p. e_published e = Some p \<and> p \<noteq> [] \<longrightarrow> merge_key e = p) \<and>
   (\<forall>e u. (e_published e = None \<or> e_published e = Some []) \<and> e_updated e = Some u
        \<longrightarrow> merge_key e = u) \<and>
   (\<forall>e. \<not> has_timestamp e \<longrightarrow> merge_key e = []) \<and>
   (\<forall>e. e_published e = None \<and> e_updated e = None \<longrightarrow> \<not> has_timestamp e)"
    by (auto simp: merge_key_def has_timestamp_def split: option.splits)
  have m: "fst (fetch_entries ev w fm) = None \<longrightarrow>
      list_all2 (\<lambda>e m. extract_one (iri_to_uri ev) (prefer_summary fm) e = Inr m)
        (merged_entries ev w fm) (p_mixed_entries (snd (snd (fetch_entries ev w fm))))"
    using fetch_entries_None [of ev w fm] by (auto intro: extract_meta_all2)
  have a: "mset (merged_entries ev w fm) = mset (l_parsed_entries (collect ev w fm))"
    by (simp add: merged_entries_def mset_py_sort_reverse)
  have b: "\<forall>k. filter (\<lambda>e. merge_key e = k) (merged_entries ev w fm) =
        filter (\<lambda>e. merge_key e = k) (l_parsed_entries (collect ev w fm))"
    by (simp add: merged_entries_def stable_py_sort_reverse)
  show ?thesis
    using s a b k p m by blast
qed

text \<open>
  Three feeds, five entries: two entries share the key \<open>2\<close> and keep the order in
  which they were collected, the entry without any date comes last.
\<close>

lemma merged_entries_sorted_by_date_text_example:
  "map e_title (merged_entries ex_env ex_world (ex_mixer [''d'', ''a'', ''b''] 3 10)) =
     [Some ''a1'', Some ''d2'', Some ''b1'', Some ''a2'', Some ''d1''] \<and>
   map merge_key (merged_entries ex_env ex_world (ex_mixer [''d'', ''a'', ''b''] 3 10)) =
     [''3'', ''2'', ''2'', ''1'', []] \<and>
   \<not> has_timestamp (merged_entries ex_env ex_world (ex_mixer [''d'', ''a'', ''b''] 3 10) ! 4) \<and>
   has_timestamp (merged_entries ex_env ex_world (ex_mixer [''d'', ''a'', ''b''] 3 10) ! 3) \<and>
   (3::nat) < 4 \<and>
   fst (ex_run [''d'', ''a'', ''b''] 3 10) = None \<and>
   map (\<lambda>m. map_of m ''title'') (p_mixed_entries (snd (snd (ex_run [''d'', ''a'', ''b''] 3 10)))) =
     [Some (MStr ''a1''), Some (MStr ''d2''), Some (MStr ''b1''), Some (MStr ''a2''),
      Some (MStr ''d1'')]"
proof -
  let ?M = "merged_entries ex_env ex_world (ex_mixer [''d'', ''a'', ''b''] 3 10)"
  have t: "map e_title ?M = [Some ''a1'', Some ''d2'', Some ''b1'', Some ''a2'', Some ''d1'']"
    by (simp add: ex_defs run_defs upt_rec Let_def)
  have k: "map merge_key ?M = [''3'', ''2'', ''2'', ''1'', []]"
    by (simp add: ex_defs run_defs upt_rec Let_def)
  have h4: "\<not> has_timestamp (?M ! 4)" and h3: "has_timestamp (?M ! 3)"
    by (simp_all add: ex_defs run_defs has_timestamp_def upt_rec Let_def)
  have l: "3 < length ?M \<and> 4 < length ?M"
    by (simp add: ex_defs run_defs upt_rec Let_def)
  have n: "fst (ex_run [''d'', ''a'', ''b''] 3 10) = None"
    by (simp add: ex_defs run_defs upt_rec Let_def)
  have c: "map (\<lambda>m. map_of m ''title'')
             (p_mixed_entries (snd (snd (ex_run [''d'', ''a'', ''b''] 3 10)))) =
           [Some (MStr ''a1''), Some (MStr ''d2''), Some (MStr ''b1''), Some (MStr ''a2''),
            Some (MStr ''d1'')]"
    by (simp add: ex_defs run_defs upt_rec Let_def)
  have "\<forall>i j. i < length ?M \<and> j < length ?M \<and> \<not> has_timestamp (?M ! i) \<and>
          has_timestamp (?M ! j) \<longrightarrow> j < i"
    using merged_entries_sorted_by_date_text [of ex_env ex_world "ex_mixer [''d'', ''a'', ''b''] 3 10"]
    by blast
  then have "(3::nat) < 4"
    using l h4 h3 by blast
  then show ?thesis
    using t k h4 h3 n c by blast
qed

text \<open>
  Claim C1 asks for the merged sequence in descending order of the published time, as the
  docstring of \<open>__fetch_entries\<close> does ("sorted chronologically"). The key of the sort
  is the date text, not the parsed time. An RSS feed writes its dates with the day of the
  week first: the entry of Monday 6 January 2020 and the entry of Wednesday 1 January
  2020, which the parser hands over newest first, leave the sort with the older one first,
  since \<open>W\<close> is greater than \<open>M\<close>; the stored canonical entries carry the
  \<open>pubdate\<close> of 1 January before that of 6 January.
\<close>

theorem C1_date_text_order_is_not_time_order:
  "map e_published (entries (parse ex_env_rss ''R'')) =
     [Some ''Mon, 06 Jan 2020 00:00:00 GMT'', Some ''Wed, 01 Jan 2020 00:00:00 GMT''] \<and>
   fst (fetch_entries ex_env_rss ex_world (ex_mixer [''r''] 3 10)) = None \<and>
   map merge_key (merged_entries ex_env_rss ex_world (ex_mixer [''r''] 3 10)) =
     [''Wed, 01 Jan 2020 00:00:00 GMT'', ''Mon, 06 Jan 2020 00:00:00 GMT''] \<and>
   map (\<lambda>e. map_option time_of (e_published_parsed e))
     (merged_entries ex_env_rss ex_world (ex_mixer [''r''] 3 10)) =
     [Some [2020, 1, 1, 0, 0, 0], Some [2020, 1, 6, 0, 0, 0]] \<and>
   [2020, 1, 1, 0, 0, 0] < [2020, 1, 6, 0, 0, (0::int)] \<and>
   map (\<lambda>m. map_of m ''title'')
     (p_mixed_entries (snd (snd (fetch_entries ex_env_rss ex_world (ex_mixer [''r''] 3 10))))) =
     [Some (MStr ''old''), Some (MStr ''new'')] \<and>
   map (\<lambda>m. map_of m ''pubdate'')
     (p_mixed_entries (snd (snd (fetch_entries ex_env_rss ex_world (ex_mixer [''r''] 3 10))))) =
     [Some (MDateTime 2020 1 1 0 0 0), Some (MDateTime 2020 1 6 0 0 0)]"
  by (simp add: ex_defs run_defs ex_env_rss_def ex_feed_rss_def datetime_def days_in_month_def
        is_leap_def time_of_def upt_rec Let_def)

section \<open>The keep-count\<close>

lemma source_result_success:
  "source_result prs k (Inr body) = Inr es \<longleftrightarrow>
     \<not> (entries (prs body) = [] \<and> bozo (prs body)) \<and>
     snd (annotate_loop (feed (prs body)) (newest_of k (entries (prs body)))) = None \<and>
     es = map (\<lambda>e. fst (annotate (feed (prs body)) e)) (newest_of k (entries (prs body)))"
  by (cases "annotate_loop (feed (prs body)) (newest_of k (entries (prs body)))")
     (auto simp: source_result_def feed_result_def dest: annotate_loop_None split: option.splits)

lemma annotate_loop_raises:
  "snd (annotate_loop fd es) = None \<longleftrightarrow> es = [] \<or> (fd_link fd \<noteq> None \<and> fd_title fd \<noteq> None)"
proof (induction es)
  case Nil
  then show ?case by simp
next
  case (Cons e es)
  then show ?case
    by (cases "annotate_loop fd es")
       (auto simp: annotate_def Let_def split: option.splits prod.splits)
qed

lemma newest_of_take: "newest_of k es = take (length (newest_of k es)) es"
  by (simp add: newest_of_def min_def)

text \<open>
  A source that is fetched and worked through without an exception hands
  \<open>parsed_entries\<close> the annotated first \<open>min k m\<close> entries of its parsed feed, in the
  parser's order, when \<open>k = num_keep\<close> is at least 1, and all \<open>m\<close> entries when
  \<open>k < 1\<close>. Every configured feed is worked through once, and what is sorted is the
  concatenation of these contributions.
\<close>

lemma keep_count_without_exception:
  assumes "cache_ok (parse ev) (lru w)"
    and "u \<in> set (feeds fm)"
    and "sess_get ev u = Inr body"
    and "source_result (parse ev) (num_keep fm) (sess_get ev u) = Inr es"
  shows "contribution (parse ev) (num_keep fm) (u, sess_get ev u) = es \<and>
         (1 \<le> num_keep fm \<longrightarrow>
            length es = min (nat (num_keep fm)) (length (entries (parse ev body)))) \<and>
         (num_keep fm < 1 \<longrightarrow> length es = length (entries (parse ev body))) \<and>
         es = map (\<lambda>e. fst (annotate (feed (parse ev body)) e))
                (take (length es) (entries (parse ev body))) \<and>
         mset (as_completed ev (feeds fm)) = mset (map (\<lambda>u. (u, sess_get ev u)) (feeds fm)) \<and>
         l_parsed_entries (collect ev w fm) =
           concat (map (contribution (parse ev) (num_keep fm)) (as_completed ev (feeds fm)))"
proof -
  let ?f = "parse ev body"
  let ?k = "num_keep fm"
  have e: "es = map (\<lambda>e. fst (annotate (feed ?f) e)) (newest_of ?k (entries ?f))"
    using assms(3,4) by (simp add: source_result_success)
  then have l: "length es = length (newest_of ?k (entries ?f))"
    by simp
  have t: "es = map (\<lambda>e. fst (annotate (feed ?f) e)) (take (length es) (entries ?f))"
    using e newest_of_take [of ?k "entries ?f"] by (simp add: l)
  have c: "contribution (parse ev) ?k (u, sess_get ev u) = es"
    using assms(4) by (simp add: contribution_def)
  show ?thesis
    using c t l assms(1)
    by (simp add: length_newest_of mset_as_completed collect_entries num_keep_def)
qed

text \<open>Feed \<open>a\<close> has two entries; with \<open>num_keep = 1\<close> its first entry alone is collected.\<close>

lemma keep_count_without_exception_example:
  "cache_ok (parse ex_env) (lru ex_world) \<and> ''a'' \<in> set (feeds (ex_mixer [''a'', ''b''] 1 10)) \<and>
   sess_get ex_env ''a'' = Inr ''A'' \<and>
   (1::int) \<le> num_keep (ex_mixer [''a'', ''b''] 1 10) \<and>
   length (entries (parse ex_env ''A'')) = 2 \<and>
   length (contribution (parse ex_env) (num_keep (ex_mixer [''a'', ''b''] 1 10))
      (''a'', sess_get ex_env ''a'')) = 1 \<and>
   map e_title (l_parsed_entries (collect ex_env ex_world (ex_mixer [''a'', ''b''] 1 10)))
     = [Some ''a1'', Some ''b1'']"
proof -
  let ?fm = "ex_mixer [''a'', ''b''] 1 10"
  let ?es = "[dated ''a1'' ''3''\<lparr>e_feed_link := Some ''la'', e_feed_title := Some ''A''\<rparr>]"
  have a: "cache_ok (parse ex_env) (lru ex_world)"
    by (simp add: cache_ok_def ex_world_def)
  have b: "''a'' \<in> set (feeds ?fm)"
    by (simp add: ex_defs feeds_def)
  have c: "sess_get ex_env ''a'' = Inr ''A''"
    by (simp add: ex_env_def)
  have d: "source_result (parse ex_env) (num_keep ?fm) (sess_get ex_env ''a'') = Inr ?es"
    by (simp add: source_result_def feed_result_def num_keep_def newest_of_def annotate_def
          ex_defs)
  have k: "(1::int) \<le> num_keep ?fm"
    by (simp add: num_keep_def ex_defs)
  have m: "length (entries (parse ex_env ''A'')) = 2"
    by (simp add: ex_defs)
  have p: "map e_title (l_parsed_entries (collect ex_env ex_world ?fm)) = [Some ''a1'', Some ''b1'']"
    by (simp add: ex_defs run_defs upt_rec Let_def)
  have "contribution (parse ex_env) (num_keep ?fm) (''a'', sess_get ex_env ''a'') = ?es \<and>
        length ?es = min (nat (num_keep ?fm)) (length (entries (parse ex_env ''A'')))"
    using keep_count_without_exception [OF a b c d] k by blast
  then show ?thesis
    using a b c k m p by simp
qed

text \<open>
  Claim C2 promises \<open>min k m\<close> entries from every source that parses. The annotation
  loop reads \<open>f.feed.link\<close> and \<open>f.feed.title\<close> without the test that it makes for
  \<open>author_detail\<close>: a feed that parses without the bozo flag and has two entries, but
  no link at feed level, raises \<open>AttributeError\<close> at its first kept entry. With
  \<open>num_keep = 1\<close> it contributes no entry instead of one, and its URL is recorded in
  \<open>error_urls\<close>.
\<close>

theorem C2_feed_without_link_contributes_nothing:
  "sess_get ex_env_nolink ''n'' = Inr ''N'' \<and>
   \<not> bozo (parse ex_env_nolink ''N'') \<and>
   length (entries (parse ex_env_nolink ''N'')) = 2 \<and>
   num_keep (ex_mixer [''n''] 1 10) = 1 \<and>
   min (nat (num_keep (ex_mixer [''n''] 1 10))) (length (entries (parse ex_env_nolink ''N''))) = 1 \<and>
   l_parsed_entries (collect ex_env_nolink ex_world (ex_mixer [''n''] 1 10)) = [] \<and>
   fst (fetch_entries ex_env_nolink ex_world (ex_mixer [''n''] 1 10)) = None \<and>
   p_mixed_entries (snd (snd (fetch_entries ex_env_nolink ex_world (ex_mixer [''n''] 1 10)))) = [] \<and>
   error_urls (snd (snd (fetch_entries ex_env_nolink ex_world (ex_mixer [''n''] 1 10)))) ''n''
     = Some (AttributeError ''link'')"
  by (simp add: ex_defs run_defs ex_env_nolink_def ex_feed_nolink_def num_keep_def
        error_urls_def upt_rec Let_def)

section \<open>A failing source\<close>

lemma concat_map_filter_nonempty:
  "(\<forall>x \<in> set xs. \<not> P x \<longrightarrow> f x = []) \<Longrightarrow> concat (map f (filter P xs)) = concat (map f xs)"
  by (induction xs) auto

text \<open>
  Claim C3. A source for which the \<open>try\<close> block raises (the request fails, the feed is
  a parse error, or anything else is raised while the source is worked through) adds no
  entry and is recorded under its URL in \<open>error_urls\<close>. The collected entries, the
  records of all other URLs and the exception with which the run ends, if any, are those
  of the loop run without the completed futures of that URL.
\<close>

theorem C3_failing_source_is_isolated:
  assumes "cache_ok (parse ev) (lru w)"
    and "0 < max_threads fm"
    and "u \<in> set (feeds fm)"
    and "source_result (parse ev) (num_keep fm) (sess_get ev u) = Inl ex"
  shows "contribution (parse ev) (num_keep fm) (u, sess_get ev u) = [] \<and>
         error_urls (snd (snd (fetch_entries ev w fm))) u = Some ex \<and>
         l_parsed_entries (collect ev w fm) =
           l_parsed_entries (run_loop (parse ev) (num_keep fm) (initial_loop_state w)
              (filter (\<lambda>c. fst c \<noteq> u) (as_completed ev (feeds fm)))) \<and>
         (\<forall>v. v \<noteq> u \<longrightarrow>
            error_urls (snd (snd (fetch_entries ev w fm))) v =
            l_error_urls (run_loop (parse ev) (num_keep fm) (initial_loop_state w)
              (filter (\<lambda>c. fst c \<noteq> u) (as_completed ev (feeds fm)))) v) \<and>
         fst (fetch_entries ev w fm) =
           (case extract_meta (iri_to_uri ev)
                   (py_sort_reverse merge_key
                      (l_parsed_entries (run_loop (parse ev) (num_keep fm) (initial_loop_state w)
                         (filter (\<lambda>c. fst c \<noteq> u) (as_completed ev (feeds fm))))))
                   (prefer_summary fm) of
              Inl x \<Rightarrow> Some x | Inr ms \<Rightarrow> None)"
proof -
  let ?prs = "parse ev" and ?k = "num_keep fm" and ?s0 = "initial_loop_state w"
  let ?cs = "as_completed ev (feeds fm)"
  let ?cs' = "filter (\<lambda>c. fst c \<noteq> u) ?cs"
  have k: "?k = p_num_keep fm" by (simp add: num_keep_def)
  have ok: "cache_ok ?prs (l_cache ?s0)"
    using assms(1) by (simp add: initial_loop_state_def)
  have c0: "contribution ?prs ?k (u, sess_get ev u) = []"
    using assms(4) by (simp add: contribution_def)
  have snd_cs: "\<forall>c \<in> set ?cs. snd c = sess_get ev (fst c)"
    by (auto simp: set_as_completed)
  have snd_cs': "\<forall>c \<in> set ?cs'. snd c = sess_get ev (fst c)"
    using snd_cs by simp
  have "\<forall>c \<in> set ?cs. \<not> fst c \<noteq> u \<longrightarrow> contribution ?prs ?k c = []"
    using snd_cs assms(4) by (auto simp: contribution_def)
  then have cc: "concat (map (contribution ?prs ?k) ?cs') = concat (map (contribution ?prs ?k) ?cs)"
    by (rule concat_map_filter_nonempty)
  have e1: "l_parsed_entries (collect ev w fm) = concat (map (contribution ?prs ?k) ?cs)"
    using assms(1) by (simp add: collect_entries k)
  have e2: "l_parsed_entries (run_loop ?prs ?k ?s0 ?cs') = concat (map (contribution ?prs ?k) ?cs')"
    using run_loop_ok [OF ok, of ?k ?cs'] by (simp add: initial_loop_state_def)
  have pe: "l_parsed_entries (collect ev w fm) = l_parsed_entries (run_loop ?prs ?k ?s0 ?cs')"
    by (simp add: e1 e2 cc)
  have er: "error_urls (snd (snd (fetch_entries ev w fm))) = l_error_urls (collect ev w fm)"
    using assms(2) by (simp add: error_urls_def fetch_entries_errors)
  have eu: "l_error_urls (collect ev w fm) u = Some ex"
    using assms(3,4) by (simp add: collect_errors [OF assms(1)] k)
  have ev': "l_error_urls (collect ev w fm) v = l_error_urls (run_loop ?prs ?k ?s0 ?cs') v"
    if "v \<noteq> u" for v
  proof -
    have "v \<in> fst ` set ?cs' \<longleftrightarrow> v \<in> set (feeds fm)"
      using that by (auto simp: set_as_completed image_iff)
    then show ?thesis
      using that run_loop_errors [OF ok snd_cs', of ?k v]
      by (simp add: collect_errors [OF assms(1)] k initial_loop_state_def split: sum.splits)
  qed
  have out: "fst (fetch_entries ev w fm) =
           (case extract_meta (iri_to_uri ev)
                   (py_sort_reverse merge_key (l_parsed_entries (run_loop ?prs ?k ?s0 ?cs')))
                   (prefer_summary fm) of
              Inl x \<Rightarrow> Some x | Inr ms \<Rightarrow> None)"
    using fetch_entries_outcome [OF assms(2), of ev w] by (simp add: merged_entries_def pe)
  show ?thesis
    using c0 pe out eu ev' by (simp add: er)
qed

text \<open>
  Feed \<open>z\<close> cannot be fetched: it is recorded, and the entries of \<open>a\<close> and \<open>b\<close>
  are the ones that the loop collects from \<open>a\<close> and \<open>b\<close> alone.
\<close>

theorem C3_failing_source_is_isolated_witness:
  "cache_ok (parse ex_env) (lru ex_world) \<and>
   0 < max_threads (ex_mixer [''a'', ''z'', ''b''] 1 10) \<and>
   ''z'' \<in> set (feeds (ex_mixer [''a'', ''z'', ''b''] 1 10)) \<and>
   source_result (parse ex_env) (num_keep (ex_mixer [''a'', ''z'', ''b''] 1 10))
     (sess_get ex_env ''z'') = Inl (RequestException ''404'') \<and>
   error_urls (snd (snd (ex_run [''a'', ''z'', ''b''] 1 10))) ''z'' = Some (RequestException ''404'') \<and>
   error_urls (snd (snd (ex_run [''a'', ''z'', ''b''] 1 10))) ''a'' = None \<and>
   map e_title (l_parsed_entries (collect ex_env ex_world (ex_mixer [''a'', ''z'', ''b''] 1 10)))
     = [Some ''a1'', Some ''b1''] \<and>
   fst (ex_run [''a'', ''z'', ''b''] 1 10) = None"
proof -
  let ?fm = "ex_mixer [''a'', ''z'', ''b''] 1 10"
  have a: "cache_ok (parse ex_env) (lru ex_world)"
    by (simp add: cache_ok_def ex_world_def)
  have b: "0 < max_threads ?fm"
    by (simp add: ex_defs)
  have c: "''z'' \<in> set (feeds ?fm)"
    by (simp add: ex_defs feeds_def)
  have d: "source_result (parse ex_env) (num_keep ?fm) (sess_get ex_env ''z'')
             = Inl (RequestException ''404'')"
    by (simp add: source_result_def ex_env_def)
  have f: "as_completed ex_env (feeds ?fm) =
             [(''a'', Inr ''A''), (''z'', Inl (RequestException ''404'')), (''b'', Inr ''B'')]"
    by (simp add: as_completed_def feeds_def ex_defs upt_rec)
  have p: "map e_title (l_parsed_entries (run_loop (parse ex_env) (num_keep ?fm)
             (initial_loop_state ex_world) [(''a'', Inr ''A''), (''b'', Inr ''B'')]))
           = [Some ''a1'', Some ''b1'']"
    by (simp add: run_defs num_keep_def initial_loop_state_def ex_defs Let_def)
  have q: "l_error_urls (run_loop (parse ex_env) (num_keep ?fm)
             (initial_loop_state ex_world) [(''a'', Inr ''A''), (''b'', Inr ''B'')]) ''a'' = None"
    by (simp add: run_defs num_keep_def initial_loop_state_def ex_defs Let_def)
  have r: "extract_meta (iri_to_uri ex_env) (py_sort_reverse merge_key
             (l_parsed_entries (run_loop (parse ex_env) (num_keep ?fm)
                (initial_loop_state ex_world) [(''a'', Inr ''A''), (''b'', Inr ''B'')])))
             (prefer_summary ?fm) \<noteq> Inl x" for x
    by (simp add: run_defs num_keep_def initial_loop_state_def ex_defs Let_def)
  show ?thesis
    using C3_failing_source_is_isolated [OF a b c d] a b c d p q r
    by (simp add: f ex_run_def split: sum.splits)
qed

section \<open>The order in which the fetches complete\<close>

lemma concat_single_block:
  "distinct ord \<Longrightarrow> i0 \<in> set ord \<Longrightarrow> (\<forall>j \<in> set ord. j \<noteq> i0 \<longrightarrow> g j = []) \<Longrightarrow>
     concat (map g ord) = g i0"
proof (induction ord)
  case Nil
  then show ?case by simp
next
  case (Cons i ord)
  show ?case
  proof (cases "i = i0")
    case True
    then have "\<forall>j \<in> set ord. g j = []"
      using Cons.prems by auto
    then have "concat (map g ord) = []"
      by simp
    then show ?thesis using True by simp
  next
    case False
    then have "g i = []" and "i0 \<in> set ord"
      using Cons.prems by auto
    then show ?thesis
      using Cons.IH Cons.prems by simp
  qed
qed

lemma concat_blocks_order:
  assumes "distinct ord" and "distinct ord'" and "set ord' = set ord"
    and "\<forall>i \<in> set ord. \<forall>j \<in> set ord. i \<noteq> j \<longrightarrow> g i = [] \<or> g j = []"
  shows "concat (map g ord) = concat (map g ord')"
proof (cases "\<forall>i \<in> set ord. g i = []")
  case True
  then have "concat (map g ord) = []" and "concat (map g ord') = []"
    using assms(3) by simp_all
  then show ?thesis by (simp only:)
next
  case False
  then obtain i0 where i0: "i0 \<in> set ord" "g i0 \<noteq> []" by blast
  then have r: "\<forall>j \<in> set ord. j \<noteq> i0 \<longrightarrow> g j = []"
    using assms(4) by blast
  have "concat (map g ord) = g i0"
    using assms(1) i0(1) r by (rule concat_single_block)
  moreover have "concat (map g ord') = g i0"
    using assms(2) i0(1) r unfolding assms(3) [symmetric] by (rule concat_single_block)
  ultimately show ?thesis by simp
qed

lemma mset_concat_map_cong:
  "mset xs = mset ys \<Longrightarrow> mset (concat (map f xs)) = mset (concat (map f ys))"
proof -
  assume a: "mset xs = mset ys"
  have "mset (concat (map f zs)) = sum_mset (image_mset (\<lambda>z. mset (f z)) (mset zs))" for zs
    by (induction zs) simp_all
  then show ?thesis using a by simp
qed

lemma py_sort_reverse_determined:
  fixes key :: "'a \<Rightarrow> 'k::linorder"
  assumes "mset xs = mset ys"
    and "\<And>k. filter (\<lambda>x. key x = k) xs = filter (\<lambda>x. key x = k) ys"
  shows "py_sort_reverse key xs = py_sort_reverse key ys"
proof -
  have "sort_key key (rev xs) = sort_key key (rev ys)"
  proof (rule properties_for_sort_key)
    show "mset (sort_key key (rev ys)) = mset (rev xs)"
      using assms(1) by simp
    show "sorted (map key (sort_key key (rev ys)))"
      by (rule sorted_sort_key)
    fix k
    have "filter (\<lambda>x. key x = key k) (sort_key key (rev ys)) = filter (\<lambda>x. key x = key k) (rev ys)"
      by (rule sort_key_stable)
    also have "\<dots> = filter (\<lambda>x. key x = key k) (rev xs)"
      using assms(2) [of "key k"] by (simp flip: rev_filter)
    finally show "filter (\<lambda>x. key k = key x) (sort_key key (rev ys)) = filter (\<lambda>x. key k = key x) (rev xs)"
      by (simp add: eq_commute [of "key k"])
  qed
  then show ?thesis by (simp add: py_sort_reverse_def)
qed

lemma as_completed_map:
  "as_completed ev urls =
     map (\<lambda>i. (urls ! i, sess_get ev (urls ! i))) (sort_key (completion_time ev) [0..<length urls])"
  by (simp add: as_completed_def)

lemma collect_order_mset:
  assumes "cache_ok (parse ev) (lru w)"
  shows "mset (l_parsed_entries (collect (ev\<lparr>completion_time := ct\<rparr>) w fm)) =
         mset (l_parsed_entries (collect ev w fm))"
proof -
  have "mset (as_completed (ev\<lparr>completion_time := ct\<rparr>) (feeds fm)) = mset (as_completed ev (feeds fm))"
    by (simp add: mset_as_completed)
  then have "mset (concat (map (contribution (parse ev) (p_num_keep fm))
                 (as_completed (ev\<lparr>completion_time := ct\<rparr>) (feeds fm)))) =
             mset (concat (map (contribution (parse ev) (p_num_keep fm))
                 (as_completed ev (feeds fm))))"
    by (rule mset_concat_map_cong)
  then show ?thesis
    using assms by (simp add: collect_entries)
qed

lemma collect_order_filter:
  assumes "cache_ok (parse ev) (lru w)" and "no_shared_keys ev fm"
  shows "filter (\<lambda>e. merge_key e = k) (l_parsed_entries (collect (ev\<lparr>completion_time := ct\<rparr>) w fm)) =
         filter (\<lambda>e. merge_key e = k) (l_parsed_entries (collect ev w fm))"
proof -
  let ?n = "length (feeds fm)"
  let ?C = "\<lambda>i. contribution (parse ev) (p_num_keep fm) (feeds fm ! i, sess_get ev (feeds fm ! i))"
  let ?g = "\<lambda>i. filter (\<lambda>e. merge_key e = k) (?C i)"
  have pe: "l_parsed_entries (collect ev' w fm) = concat (map ?C (sort_key (completion_time ev') [0..<?n]))"
    if "parse ev' = parse ev" "sess_get ev' = sess_get ev" for ev'
    using assms(1) that collect_entries [of ev' w fm]
    by (simp add: as_completed_map comp_def)
  have fl: "filter (\<lambda>e. merge_key e = k) (concat (map ?C ord)) = concat (map ?g ord)" for ord
    by (simp add: filter_concat comp_def)
  have sep: "\<forall>i \<in> set (sort_key (completion_time ev) [0..<?n]).
             \<forall>j \<in> set (sort_key (completion_time ev) [0..<?n]). i \<noteq> j \<longrightarrow> ?g i = [] \<or> ?g j = []"
  proof (intro ballI impI)
    fix i j
    assume i: "i \<in> set (sort_key (completion_time ev) [0..<?n])"
      and j: "j \<in> set (sort_key (completion_time ev) [0..<?n])" and ne: "i \<noteq> j"
    have "\<forall>i \<in> {0..<?n}. \<forall>j \<in> {0..<?n}.
            i = j \<or> (\<forall>x \<in> set (keys_of ev fm i). x \<notin> set (keys_of ev fm j))"
      using assms(2) by (simp add: no_shared_keys_def list_all_iff)
    moreover have "i \<in> {0..<?n}" "j \<in> {0..<?n}"
      using i j by simp_all
    ultimately have dis: "\<forall>x \<in> set (keys_of ev fm i). x \<notin> set (keys_of ev fm j)"
      using ne by blast
    show "?g i = [] \<or> ?g j = []"
    proof (rule ccontr)
      assume "\<not> (?g i = [] \<or> ?g j = [])"
      then obtain a b where a: "a \<in> set (?C i)" "merge_key a = k"
        and b: "b \<in> set (?C j)" "merge_key b = k"
        by (auto simp: filter_empty_conv)
      have "k \<in> set (keys_of ev fm i)"
        using a by (force simp: keys_of_def num_keep_def)
      moreover have "k \<in> set (keys_of ev fm j)"
        using b by (force simp: keys_of_def num_keep_def)
      ultimately show False using dis by blast
    qed
  qed
  have "concat (map ?g (sort_key (completion_time ev) [0..<?n])) = concat (map ?g (sort_key ct [0..<?n]))"
    by (rule concat_blocks_order) (use sep in simp_all)
  then show ?thesis
    by (simp add: pe fl)
qed

lemma fetch_entries_error_map:
  "p_error_urls (snd (snd (fetch_entries ev w fm))) =
     (if max_threads fm \<le> 0 then Map.empty else l_error_urls (collect ev w fm))"
  by (simp add: fetch_entries_def Let_def split: sum.splits)

lemma fetch_entries_by_merged:
  "fst (fetch_entries ev w fm) =
     (if max_threads fm \<le> 0 then Some (ValueError ''max_workers must be greater than 0'')
      else (case extract_meta (iri_to_uri ev) (merged_entries ev w fm) (prefer_summary fm) of
              Inl ex \<Rightarrow> Some ex | Inr ms \<Rightarrow> None)) \<and>
   p_mixed_entries (snd (snd (fetch_entries ev w fm))) =
     (if max_threads fm \<le> 0 then p_mixed_entries fm
      else (case extract_meta (iri_to_uri ev) (merged_entries ev w fm) (prefer_summary fm) of
              Inl ex \<Rightarrow> p_mixed_entries fm | Inr ms \<Rightarrow> ms))"
  by (simp add: fetch_entries_def Let_def split: sum.splits)

text \<open>
  Claim C4 says that the completion order never shows in the output. The first entries of
  the feeds \<open>a\<close> and \<open>c\<close> carry the same date; the stable sort leaves them in the
  order in which \<open>as_completed\<close> delivered them.
\<close>

theorem C4_counterexample:
  "map (\<lambda>m. map_of m ''title'')
     (p_mixed_entries (snd (snd (fetch_entries ex_env ex_world (ex_mixer [''a'', ''c''] 1 10)))))
     = [Some (MStr ''a1''), Some (MStr ''c1'')] \<and>
   map (\<lambda>m. map_of m ''title'')
     (p_mixed_entries (snd (snd (fetch_entries (ex_env\<lparr>completion_time := \<lambda>i. 1 - i\<rparr>) ex_world
        (ex_mixer [''a'', ''c''] 1 10)))))
     = [Some (MStr ''c1''), Some (MStr ''a1'')]"
  by (simp add: ex_defs run_defs upt_rec Let_def)

text \<open>
  Claim C4, amended. Two runs that differ only in the order in which the fetches complete
  record the same \<open>error_urls\<close> and sort the same entries. When no two positions of the
  feed list contribute entries with a common merge key, the sorted entries are the same
  list, and so are the outcome of the run and the stored canonical entries. Entries of
  different sources with equal keys stay in the order in which their fetches completed.
\<close>

theorem C4_completion_order:
  assumes "cache_ok (parse ev) (lru w)"
  shows "mset (merged_entries (ev\<lparr>completion_time := ct\<rparr>) w fm) = mset (merged_entries ev w fm) \<and>
         error_urls (snd (snd (fetch_entries (ev\<lparr>completion_time := ct\<rparr>) w fm))) =
           error_urls (snd (snd (fetch_entries ev w fm))) \<and>
         (no_shared_keys ev fm \<longrightarrow>
            merged_entries (ev\<lparr>completion_time := ct\<rparr>) w fm = merged_entries ev w fm \<and>
            fst (fetch_entries (ev\<lparr>completion_time := ct\<rparr>) w fm) = fst (fetch_entries ev w fm) \<and>
            p_mixed_entries (snd (snd (fetch_entries (ev\<lparr>completion_time := ct\<rparr>) w fm))) =
              p_mixed_entries (snd (snd (fetch_entries ev w fm))))"
proof -
  let ?ev' = "ev\<lparr>completion_time := ct\<rparr>"
  have ok': "cache_ok (parse ?ev') (lru w)"
    using assms by simp
  have m: "mset (merged_entries ?ev' w fm) = mset (merged_entries ev w fm)"
    using collect_order_mset [OF assms] by (simp add: merged_entries_def mset_py_sort_reverse)
  have "l_error_urls (collect ?ev' w fm) u = l_error_urls (collect ev w fm) u" for u
    by (simp add: collect_errors [OF ok'] collect_errors [OF assms])
  then have "l_error_urls (collect ?ev' w fm) = l_error_urls (collect ev w fm)"
    by (rule ext)
  then have e: "error_urls (snd (snd (fetch_entries ?ev' w fm))) =
                error_urls (snd (snd (fetch_entries ev w fm)))"
    by (simp add: error_urls_def fetch_entries_error_map)
  have s: "merged_entries ?ev' w fm = merged_entries ev w fm" if "no_shared_keys ev fm"
    unfolding merged_entries_def
    using collect_order_mset [OF assms] collect_order_filter [OF assms that]
    by (rule py_sort_reverse_determined)
  show ?thesis
    using m e s fetch_entries_by_merged [of ?ev' w fm] fetch_entries_by_merged [of ev w fm]
    by simp
qed

text \<open>Feeds \<open>a\<close> and \<open>b\<close> share no key; completing in the order b, a changes nothing.\<close>

theorem C4_completion_order_witness:
  "cache_ok (parse ex_env) (lru ex_world) \<and>
   no_shared_keys ex_env (ex_mixer [''a'', ''b''] 3 10) \<and>
   map fst (as_completed ex_env (feeds (ex_mixer [''a'', ''b''] 3 10))) = [''a'', ''b''] \<and>
   map fst (as_completed (ex_env\<lparr>completion_time := \<lambda>i. 1 - i\<rparr>)
      (feeds (ex_mixer [''a'', ''b''] 3 10))) = [''b'', ''a''] \<and>
   p_mixed_entries (snd (snd (fetch_entries (ex_env\<lparr>completion_time := \<lambda>i. 1 - i\<rparr>) ex_world
      (ex_mixer [''a'', ''b''] 3 10)))) =
   p_mixed_entries (snd (snd (fetch_entries ex_env ex_world (ex_mixer [''a'', ''b''] 3 10)))) \<and>
   map (\<lambda>m. map_of m ''title'')
     (p_mixed_entries (snd (snd (fetch_entries ex_env ex_world (ex_mixer [''a'', ''b''] 3 10)))))
     = [Some (MStr ''a1''), Some (MStr ''b1''), Some (MStr ''a2'')]"
proof -
  let ?fm = "ex_mixer [''a'', ''b''] 3 10"
  have a: "cache_ok (parse ex_env) (lru ex_world)"
    by (simp add: cache_ok_def ex_world_def)
  have n: "no_shared_keys ex_env ?fm"
    by (auto simp: no_shared_keys_def keys_of_def contribution_def source_result_def
          feed_result_def num_keep_def feeds_def newest_of_def annotate_def merge_key_def
          Let_def upt_rec ex_defs)
  have o1: "map fst (as_completed ex_env (feeds ?fm)) = [''a'', ''b'']"
    by (simp add: as_completed_def feeds_def upt_rec ex_defs)
  have o2: "map fst (as_completed (ex_env\<lparr>completion_time := \<lambda>i. 1 - i\<rparr>) (feeds ?fm))
              = [''b'', ''a'']"
    by (simp add: as_completed_def feeds_def upt_rec ex_defs)
  have t: "map (\<lambda>m. map_of m ''title'')
             (p_mixed_entries (snd (snd (fetch_entries ex_env ex_world ?fm))))
           = [Some (MStr ''a1''), Some (MStr ''b1''), Some (MStr ''a2'')]"
    by (simp add: ex_defs run_defs upt_rec Let_def)
  have "p_mixed_entries (snd (snd (fetch_entries (ex_env\<lparr>completion_time := \<lambda>i. 1 - i\<rparr>)
          ex_world ?fm))) =
        p_mixed_entries (snd (snd (fetch_entries ex_env ex_world ?fm)))"
    using C4_completion_order [OF a, of "\<lambda>i. 1 - i" ?fm] n by blast
  then show ?thesis
    using a n o1 o2 t by blast
qed

section \<open>The cached feed is written to\<close>







end
